theory Spec2Isabelle
  imports Main
begin

section \<open>SweetExperiencesEngine.c: data model\<close>

text \<open>
  The embedding follows \<^verbatim>\<open>src/src/SweetExperiencesEngine.c\<close> function by function.
  C \<^verbatim>\<open>int\<close>, \<^verbatim>\<open>long\<close> and \<^verbatim>\<open>time_t\<close> values are HOL integers; where the source
  can leave the range of the C type the conversion is written out. A \<^verbatim>\<open>char\<close> array is
  modelled by the C string it holds (the bytes before the terminating NUL).
\<close>

definition MAX_ACHIEVEMENTS :: int where
  "MAX_ACHIEVEMENTS = 50"

definition MAX_NOTIFICATIONS :: int where
  "MAX_NOTIFICATIONS = 100"

definition DATA_BUFFER_SIZE :: nat where
  "DATA_BUFFER_SIZE = 4096"

abbreviation NUL :: char where
  "NUL \<equiv> CHR 0x00"

abbreviation NL :: char where
  "NL \<equiv> CHR 0x0A"

abbreviation DQ :: char where
  "DQ \<equiv> CHR 0x22"

abbreviation BAR :: char where
  "BAR \<equiv> CHR ''|''"

text \<open>\<^verbatim>\<open>typedef struct { char id[32]; char name[64]; char description[128]; int progress;
  int target; int unlocked; time_t unlock_time; } Achievement;\<close>\<close>

record Achievement =
  id_field :: string
  name :: string
  description :: string
  progress :: int
  target :: int
  unlocked :: int
  unlock_time :: int

text \<open>\<^verbatim>\<open>typedef struct { char message[256]; char type[32]; time_t timestamp; int priority; }
  Notification;\<close>\<close>

record Notification =
  message :: string
  type_field :: string
  timestamp :: int
  priority :: int

text \<open>
  \<^verbatim>\<open>SweetEngine\<close>: the thread handles and the two unused descriptors are left out.
  \<open>data_mutex\<close> is \<open>True\<close> while the mutex is locked.
\<close>

record SweetEngine =
  enabled :: int
  data_mutex :: bool
  achievements :: "Achievement list"
  achievement_count :: int
  notification_queue :: "Notification list"
  notification_count :: int
  notification_head :: int
  notification_tail :: int

text \<open>
  The whole machine: the global \<^verbatim>\<open>engine\<close>, the three function-local \<^verbatim>\<open>static\<close> counters,
  and the part of the world the program touches.
  \<^item> \<open>ini_file\<close>: the text of the configuration file, \<open>None\<close> when \<^verbatim>\<open>fopen\<close> fails;
  \<^item> \<open>data_file\<close>: the text of the store file, \<open>None\<close> when it does not exist;
    \<open>data_readable\<close>/\<open>data_writable\<close>: whether opening it for reading / for writing
    (creating it) succeeds;
  \<^item> \<open>log_file\<close>: the text of \<^verbatim>\<open>engine.log\<close>; \<open>log_writable\<close>: whether \<^verbatim>\<open>fopen(..., "a")\<close> succeeds;
  \<^item> \<open>stdout_text\<close>, \<open>stderr_text\<close>: what was printed; \<open>socket_out\<close>: the messages written
    to the notification consumer's socket, one entry per connection;
  \<^item> \<open>clock\<close>, \<open>connect_ok\<close>, \<open>rand_values\<close>: what the k-th call of \<^verbatim>\<open>time(NULL)\<close>,
    \<^verbatim>\<open>connect_notif_engine()\<close> and \<^verbatim>\<open>rand()\<close> returns, with the number of calls made so far;
  \<^item> \<open>ctime_text\<close>: the library function \<^verbatim>\<open>ctime\<close>.
  A \<^verbatim>\<open>read\<close> or \<^verbatim>\<open>write\<close> on an open descriptor transfers all the bytes asked for.
\<close>

record system = SweetEngine +
  boot_count :: int
  wayland_events :: int
  event_count :: int
  ini_file :: "string option"
  data_file :: "string option"
  data_readable :: bool
  data_writable :: bool
  log_file :: string
  log_writable :: bool
  stdout_text :: "string list"
  stderr_text :: "string list"
  socket_out :: "string list"
  clock :: "nat \<Rightarrow> int"
  time_calls :: nat
  connect_ok :: "nat \<Rightarrow> bool"
  connect_calls :: nat
  rand_values :: "nat \<Rightarrow> nat"
  rand_calls :: nat
  ctime_text :: "int \<Rightarrow> string"

text \<open>
  How a call ends: it returns a value and the new state; or the calling thread blocks for
  ever in \<^verbatim>\<open>pthread_mutex_lock\<close> (the state is the one it blocks in); or the call leaves
  defined C (a write or read past the end of an array; the state is the one before it).
\<close>

datatype 'a outcome = Returns 'a system | Blocked system | Undefined system

fun state_of :: "'a outcome \<Rightarrow> system" where
  "state_of (Returns v s) = s"
| "state_of (Blocked s) = s"
| "state_of (Undefined s) = s"

fun then_do :: "'a outcome \<Rightarrow> ('a \<Rightarrow> system \<Rightarrow> 'b outcome) \<Rightarrow> 'b outcome" where
  "then_do (Returns v s) f = f v s"
| "then_do (Blocked s) f = Blocked s"
| "then_do (Undefined s) f = Undefined s"

text \<open>
  \<^verbatim>\<open>pthread_mutex_init(&engine.data_mutex, NULL)\<close> makes a default mutex: locking it again
  from the thread that holds it never returns.
\<close>

definition pthread_mutex_lock :: "system \<Rightarrow> unit outcome" where
  "pthread_mutex_lock s =
     (if data_mutex s then Blocked s else Returns () (s\<lparr>data_mutex := True\<rparr>))"

definition pthread_mutex_unlock :: "system \<Rightarrow> system" where
  "pthread_mutex_unlock s = s\<lparr>data_mutex := False\<rparr>"

definition time_now :: "system \<Rightarrow> int \<times> system" where
  "time_now s = (clock s (time_calls s), s\<lparr>time_calls := Suc (time_calls s)\<rparr>)"

definition rand :: "system \<Rightarrow> int \<times> system" where
  "rand s = (int (rand_values s (rand_calls s)), s\<lparr>rand_calls := Suc (rand_calls s)\<rparr>)"

definition printf :: "string \<Rightarrow> system \<Rightarrow> system" where
  "printf text s = s\<lparr>stdout_text := stdout_text s @ [text]\<rparr>"

definition eprintf :: "string \<Rightarrow> system \<Rightarrow> system" where
  "eprintf text s = s\<lparr>stderr_text := stderr_text s @ [text]\<rparr>"

section \<open>Configuration\<close>

text \<open>
  The lines the \<^verbatim>\<open>while (fgets(line, 256, fp))\<close> loop sees: each call takes at most 255
  bytes, up to and including the first newline. \<open>cur\<close> is the line being read, reversed.
\<close>

fun fgets_lines :: "string \<Rightarrow> string \<Rightarrow> string list" where
  "fgets_lines cur [] = (if cur = [] then [] else [rev cur])"
| "fgets_lines cur (c # cs) =
     (if c = NL \<or> Suc (length cur) = 255 then rev (c # cur) # fgets_lines [] cs
      else fgets_lines (c # cur) cs)"

text \<open>A C string ends at its first NUL.\<close>

definition cstr :: "string \<Rightarrow> string" where
  "cstr bytes = takeWhile (\<lambda>c. c \<noteq> NUL) bytes"

text \<open>\<^verbatim>\<open>strstr(hay, needle) != NULL\<close>\<close>

fun strstr :: "string \<Rightarrow> string \<Rightarrow> bool" where
  "strstr [] needle = (needle = [])"
| "strstr (c # cs) needle = (take (length needle) (c # cs) = needle \<or> strstr cs needle)"

text \<open>The loop of \<^verbatim>\<open>load_config\<close>: does some line contain the key?\<close>

fun config_scan :: "string list \<Rightarrow> bool" where
  "config_scan [] = False"
| "config_scan (line # rest) =
     (if strstr (cstr line) ''SWEETENGINE=true'' then True else config_scan rest)"

definition load_config :: "system \<Rightarrow> int \<times> system" where
  "load_config s =
     (case ini_file s of
        None \<Rightarrow>
          (0, eprintf ''SweetEngine: Config file not found, defaulting to disabled\<newline>'' s)
      | Some text \<Rightarrow>
          if config_scan (fgets_lines [] text)
          then (1, printf ''SweetEngine: Enabled via config\<newline>'' (s\<lparr>enabled := 1\<rparr>))
          else (0, printf ''SweetEngine: Disabled via config\<newline>'' s))"

text \<open>
  One round of the loop at the end of \<^verbatim>\<open>main\<close>: \<open>len\<close> is what \<^verbatim>\<open>read(inotify_fd, ...)\<close>
  returned. The loop ends when \<^verbatim>\<open>engine.enabled\<close> is 0.
\<close>

definition config_watch_tick :: "int \<Rightarrow> system \<Rightarrow> system" where
  "config_watch_tick len s =
     (if enabled s = 0 then s
      else if len > 0 then snd (load_config s) else s)"

text \<open>
  A run of reloads: before each one the configuration file is given a new content
  (or is made unreadable).
\<close>

fun config_reloads :: "string option list \<Rightarrow> system \<Rightarrow> system" where
  "config_reloads [] s = s"
| "config_reloads (content # rest) s =
     config_reloads rest (snd (load_config (s\<lparr>ini_file := content\<rparr>)))"

section \<open>Text formatting and scanning\<close>

text \<open>\<^verbatim>\<open>snprintf(buf, n, ...)\<close> leaves in \<open>buf\<close> the first \<open>n - 1\<close> bytes of the formatted text.\<close>

definition snprintf :: "nat \<Rightarrow> string \<Rightarrow> string" where
  "snprintf n text = take (n - 1) text"

definition digit_char :: "nat \<Rightarrow> char" where
  "digit_char d = char_of (48 + d)"

fun show_nat :: "nat \<Rightarrow> string" where
  "show_nat n = (if n < 10 then [digit_char n] else show_nat (n div 10) @ [digit_char (n mod 10)])"

declare show_nat.simps [simp del]

text \<open>The conversions \<^verbatim>\<open>%d\<close> and \<^verbatim>\<open>%ld\<close> of \<^verbatim>\<open>printf\<close>.\<close>

definition show_int :: "int \<Rightarrow> string" where
  "show_int i = (if i < 0 then CHR ''-'' # show_nat (nat (- i)) else show_nat (nat i))"

definition quoted :: "string \<Rightarrow> string" where
  "quoted text = DQ # text @ [DQ]"

definition isspace :: "char \<Rightarrow> bool" where
  "isspace c = (c = CHR '' '' \<or> (9 \<le> (of_char c :: nat) \<and> (of_char c :: nat) \<le> 13))"

definition isdigit :: "char \<Rightarrow> bool" where
  "isdigit c = (48 \<le> (of_char c :: nat) \<and> (of_char c :: nat) \<le> 57)"

definition digit_val :: "char \<Rightarrow> int" where
  "digit_val c = int (of_char c) - 48"

text \<open>The conversion \<^verbatim>\<open>%N[^|]\<close> of \<^verbatim>\<open>sscanf\<close>: one to \<open>N\<close> bytes other than the bar; the value and
  the rest of the input, or \<open>None\<close> when no byte matches.\<close>

definition scan_set :: "nat \<Rightarrow> string \<Rightarrow> (string \<times> string) option" where
  "scan_set n input =
     (let tok = take n (takeWhile (\<lambda>c. c \<noteq> BAR) input)
      in if tok = [] then None else Some (tok, drop (length tok) input))"

text \<open>A literal byte of the format.\<close>

fun scan_lit :: "char \<Rightarrow> string \<Rightarrow> string option" where
  "scan_lit c [] = None"
| "scan_lit c (x # rest) = (if x = c then Some rest else None)"

text \<open>
  An optionally signed decimal number after optional white space, as \<^verbatim>\<open>%d\<close> and \<^verbatim>\<open>%ld\<close>
  read it: its mathematical value and the rest of the input.
\<close>

definition scan_number :: "string \<Rightarrow> (int \<times> string) option" where
  "scan_number input =
     (let r = dropWhile isspace input;
          neg = (r \<noteq> [] \<and> hd r = CHR ''-'');
          r1 = (if r \<noteq> [] \<and> (hd r = CHR ''-'' \<or> hd r = CHR ''+'') then tl r else r);
          ds = takeWhile isdigit r1;
          v = foldl (\<lambda>a c. 10 * a + digit_val c) 0 ds
      in if ds = [] then None else Some (if neg then - v else v, drop (length ds) r1))"

text \<open>
  What is stored for a number outside the type (sizes of an LP64 Linux; the GNU library
  converts with \<^verbatim>\<open>strtol\<close>, which stops at the ends of \<^verbatim>\<open>long\<close>, and stores an \<^verbatim>\<open>int\<close> by
  cutting the value to 32 bits).
\<close>

definition to_long :: "int \<Rightarrow> int" where
  "to_long v = max (- (2 ^ 63)) (min (2 ^ 63 - 1) v)"

definition to_int :: "int \<Rightarrow> int" where
  "to_int v = (to_long v + 2 ^ 31) mod 2 ^ 32 - 2 ^ 31"

definition scan_d :: "string \<Rightarrow> (int \<times> string) option" where
  "scan_d input = map_option (\<lambda>(v, rest). (to_int v, rest)) (scan_number input)"

definition scan_ld :: "string \<Rightarrow> (int \<times> string) option" where
  "scan_ld input = map_option (\<lambda>(v, rest). (to_long v, rest)) (scan_number input)"

text \<open>
  \<^verbatim>\<open>sscanf(input, "%31[^|]|%63[^|]|%127[^|]|%d|%d|%d|%ld", ach->id, ...)\<close>: the fields are
  stored from left to right until the input stops matching; the fields after that
  point keep what they held. (The source ignores the number of fields converted.)
\<close>

definition store_text ::
  "(string \<Rightarrow> Achievement \<Rightarrow> Achievement) \<Rightarrow> nat \<Rightarrow> string \<Rightarrow> Achievement \<Rightarrow> Achievement \<times> string option" where
  "store_text put n input a =
     (case scan_set n input of None \<Rightarrow> (a, None) | Some (v, rest) \<Rightarrow> (put v a, Some rest))"

definition store_number ::
  "(string \<Rightarrow> (int \<times> string) option) \<Rightarrow> (int \<Rightarrow> Achievement \<Rightarrow> Achievement) \<Rightarrow> string
     \<Rightarrow> Achievement \<Rightarrow> Achievement \<times> string option" where
  "store_number conv put input a =
     (case conv input of None \<Rightarrow> (a, None) | Some (v, rest) \<Rightarrow> (put v a, Some rest))"

definition match_bar :: "string \<Rightarrow> Achievement \<Rightarrow> Achievement \<times> string option" where
  "match_bar input a = (a, scan_lit BAR input)"

text \<open>One directive of the format after another, as long as the input matches.\<close>

definition scan_step ::
  "Achievement \<times> string option \<Rightarrow> (string \<Rightarrow> Achievement \<Rightarrow> Achievement \<times> string option)
     \<Rightarrow> Achievement \<times> string option" where
  "scan_step st directive =
     (case snd st of None \<Rightarrow> st | Some input \<Rightarrow> directive input (fst st))"

definition achievement_format :: "(string \<Rightarrow> Achievement \<Rightarrow> Achievement \<times> string option) list" where
  "achievement_format =
     [store_text (\<lambda>v a. a\<lparr>id_field := v\<rparr>) 31, match_bar,
      store_text (\<lambda>v a. a\<lparr>name := v\<rparr>) 63, match_bar,
      store_text (\<lambda>v a. a\<lparr>description := v\<rparr>) 127, match_bar,
      store_number scan_d (\<lambda>v a. a\<lparr>progress := v\<rparr>), match_bar,
      store_number scan_d (\<lambda>v a. a\<lparr>target := v\<rparr>), match_bar,
      store_number scan_d (\<lambda>v a. a\<lparr>unlocked := v\<rparr>), match_bar,
      store_number scan_ld (\<lambda>v a. a\<lparr>unlock_time := v\<rparr>)]"

definition sscanf_achievement :: "string \<Rightarrow> Achievement \<Rightarrow> Achievement" where
  "sscanf_achievement input a = fst (foldl scan_step (a, Some input) achievement_format)"

text \<open>
  The tokens \<^verbatim>\<open>strtok(buffer, "\n")\<close> and the calls \<^verbatim>\<open>strtok(NULL, "\n")\<close> after it return:
  the maximal non-empty runs of bytes other than the newline.
\<close>

function strtok_lines :: "string \<Rightarrow> string list" where
  "strtok_lines text =
     (case dropWhile (\<lambda>c. c = NL) text of
        [] \<Rightarrow> []
      | c # cs \<Rightarrow> takeWhile (\<lambda>x. x \<noteq> NL) (c # cs) # strtok_lines (dropWhile (\<lambda>x. x \<noteq> NL) cs))"
  by pat_completeness auto
termination
proof (relation "measure length")
  show "wf (measure length)"
    by simp
next
  fix bytes :: string and c cs
  assume a: "dropWhile (\<lambda>c. c = NL) bytes = c # cs"
  have "length (dropWhile (\<lambda>x. x \<noteq> NL) cs) \<le> length cs"
    by (rule length_dropWhile_le)
  moreover have "length (c # cs) \<le> length bytes"
    using length_dropWhile_le [of "\<lambda>c. c = NL" bytes] a by simp
  ultimately show "(dropWhile (\<lambda>x. x \<noteq> NL) cs, bytes) \<in> measure length"
    by simp
qed

declare strtok_lines.simps [simp del]

section \<open>Notification delivery and the audit log\<close>

text \<open>\<^verbatim>\<open>connect_notif_engine() >= 0\<close>: whether a connection to the consumer was made.\<close>

definition connect_notif_engine :: "system \<Rightarrow> bool \<times> system" where
  "connect_notif_engine s =
     (connect_ok s (connect_calls s), s\<lparr>connect_calls := Suc (connect_calls s)\<rparr>)"

definition notification_json :: "string \<Rightarrow> string \<Rightarrow> int \<Rightarrow> int \<Rightarrow> string" where
  "notification_json ty msg prio now =
     ''{'' @ quoted ''type'' @ '':'' @ quoted ty @ '','' @ quoted ''message'' @ '':'' @ quoted msg
       @ '','' @ quoted ''priority'' @ '':'' @ show_int prio
       @ '','' @ quoted ''timestamp'' @ '':'' @ show_int now @ ''}\<newline>''"

definition send_notification :: "string \<Rightarrow> string \<Rightarrow> int \<Rightarrow> system \<Rightarrow> int \<times> system" where
  "send_notification msg ty prio s =
     (case connect_notif_engine s of
        (False, s1) \<Rightarrow> (- 1, eprintf ''SweetEngine: Failed to connect to NotifEngine\<newline>'' s1)
      | (True, s1) \<Rightarrow>
          (case time_now s1 of (now, s2) \<Rightarrow>
             (0, s2\<lparr>socket_out := socket_out s2 @ [snprintf 512 (notification_json ty msg prio now)]\<rparr>)))"

definition random_msgs :: "string list" where
  "random_msgs =
     [''You're crushing it today!'',
      ''Smooth boot sequence detected'',
      ''System purring like a kitten'',
      ''Achievement streak active'',
      ''Lumen OS loves you back'',
      ''Battery optimization master'',
      ''Kernel threads dancing happily'',
      ''Wayland compositor flexing'',
      ''Memory pressure minimal'',
      ''You're a system wizard'']"

definition generate_random_notification :: "system \<Rightarrow> system" where
  "generate_random_notification s =
     (case rand s of (r, s1) \<Rightarrow>
        snd (send_notification (random_msgs ! nat (r mod 10)) ''random'' 2 s1))"

text \<open>\<^verbatim>\<open>log_engine_event\<close>: one line, when the log can be opened; the time text is \<^verbatim>\<open>ctime\<close>'s
  without its last byte.\<close>

definition log_engine_event :: "string \<Rightarrow> system \<Rightarrow> system" where
  "log_engine_event event s =
     (if log_writable s
      then (case time_now s of (now, s1) \<Rightarrow>
              s1\<lparr>log_file := log_file s1 @ ''['' @ butlast (ctime_text s1 now) @ ''] '' @ event @ ''\<newline>''\<rparr>)
      else s)"

section \<open>Persistence\<close>

definition achievement_line :: "Achievement \<Rightarrow> string" where
  "achievement_line a =
     ''ACH:'' @ id_field a @ ''|'' @ name a @ ''|'' @ description a @ ''|'' @ show_int (progress a)
       @ ''|'' @ show_int (target a) @ ''|'' @ show_int (unlocked a) @ ''|'' @ show_int (unlock_time a)
       @ ''\<newline>''"

text \<open>
  \<^verbatim>\<open>written += snprintf(buffer + written, sizeof(buffer) - written, ...)\<close> on the pair of
  the bytes stored so far and \<open>written\<close>. With \<open>written\<close> at most 4096 the call stores what
  fits before position 4095 and adds the full length of the text. With \<open>written\<close> beyond
  4096 the size argument wraps round and the call writes past the end of the buffer.
\<close>

definition snprintf_at :: "string \<times> nat \<Rightarrow> string \<Rightarrow> (string \<times> nat) option" where
  "snprintf_at bw text =
     (if snd bw > DATA_BUFFER_SIZE then None
      else Some (fst bw @ take (DATA_BUFFER_SIZE - 1 - snd bw) text, snd bw + length text))"

fun save_lines :: "Achievement list \<Rightarrow> string \<times> nat \<Rightarrow> (string \<times> nat) option" where
  "save_lines [] bw = Some bw"
| "save_lines (a # rest) bw =
     (case snprintf_at bw (achievement_line a) of None \<Rightarrow> None | Some bw' \<Rightarrow> save_lines rest bw')"

text \<open>
  \<^verbatim>\<open>save_engine_data\<close>. Opening with \<^verbatim>\<open>O_TRUNC\<close> empties the file; \<^verbatim>\<open>write(fd, buffer, written)\<close>
  reads past the buffer when \<open>written\<close> is beyond 4096, and at 4096 its last byte is the
  NUL the cut \<^verbatim>\<open>snprintf\<close> stored.
\<close>

definition save_engine_data :: "system \<Rightarrow> int outcome" where
  "save_engine_data s =
     then_do (pthread_mutex_lock s) (\<lambda>_ s1.
       if \<not> data_writable s1 then Returns (- 1) (pthread_mutex_unlock s1)
       else
         let s2 = s1\<lparr>data_file := Some []\<rparr> in
         case snprintf_at ([], 0) ''SWEETENGINE_DATA_v1\<newline>'' of
           None \<Rightarrow> Undefined s2
         | Some bw \<Rightarrow>
             (case save_lines (take (nat (achievement_count s2)) (achievements s2)) bw of
                None \<Rightarrow> Undefined s2
              | Some bw' \<Rightarrow>
                  if snd bw' > DATA_BUFFER_SIZE then Undefined s2
                  else Returns 0
                    (pthread_mutex_unlock (s2\<lparr>data_file := Some (take (snd bw') (fst bw' @ [NUL]))\<rparr>))))"

text \<open>The body of the \<^verbatim>\<open>while (line && engine.achievement_count < MAX_ACHIEVEMENTS)\<close> loop of
  \<^verbatim>\<open>load_engine_data\<close>, over the lines that are left.\<close>

fun load_loop :: "string list \<Rightarrow> system \<Rightarrow> system" where
  "load_loop [] s = s"
| "load_loop (line # rest) s =
     (if achievement_count s < MAX_ACHIEVEMENTS
      then load_loop rest
        (if take 4 line = ''ACH:''
         then s\<lparr>achievements := (achievements s)[nat (achievement_count s) :=
                   sscanf_achievement (drop 4 line) (achievements s ! nat (achievement_count s))],
                 achievement_count := achievement_count s + 1\<rparr>
         else s)
      else s)"

text \<open>The block under \<^verbatim>\<open>// Initialize default achievements if empty\<close>.\<close>

definition seed_defaults :: "system \<Rightarrow> system" where
  "seed_defaults s =
     (if achievement_count s = 0
      then
        let a0 = (achievements s ! 0)\<lparr>id_field := ''boot_master'', name := ''Boot Master'',
                   description := ''Boot 10 times successfully'', target := 10\<rparr>;
            a1 = (achievements s ! 1)\<lparr>id_field := ''wayland_pro'', name := ''Wayland Pro'',
                   description := ''Process 500 Wayland events'', target := 500\<rparr>
        in s\<lparr>achievements := (achievements s)[0 := a0, 1 := a1], achievement_count := 2\<rparr>
      else s)"

definition load_engine_data :: "system \<Rightarrow> int \<times> system" where
  "load_engine_data s =
     (case (if data_readable s then data_file s else None) of
        None \<Rightarrow> (- 1, s)
      | Some bytes \<Rightarrow>
          let len = min (length bytes) (DATA_BUFFER_SIZE - 1) in
          if len \<le> 0 then (- 1, s)
          else
            let buffer = cstr (take len bytes)
            in (0, seed_defaults (load_loop (strtok_lines buffer) (s\<lparr>achievement_count := 0\<rparr>))))"

section \<open>Unlocking and the evaluator\<close>

definition trophy :: string where
  "trophy = [CHR 0xC3, CHR 0xB0, CHR 0xC5, CHR 0xB8, CHR 0xE2, CHR 0x80, CHR 0xA0]"

definition unlock_message :: "Achievement \<Rightarrow> string" where
  "unlock_message a =
     snprintf 256 (trophy @ '' Achievement Unlocked: '' @ name a @ ''!\<newline>'' @ description a)"

text \<open>The body of the \<^verbatim>\<open>if\<close> in \<^verbatim>\<open>unlock_achievement\<close>, for the index \<open>i\<close> it matched.\<close>

definition unlock_at :: "nat \<Rightarrow> system \<Rightarrow> unit outcome" where
  "unlock_at i s =
     (let s1 = s\<lparr>achievements := (achievements s)[i := (achievements s ! i)\<lparr>unlocked := 1\<rparr>]\<rparr> in
      case time_now s1 of (now, s2) \<Rightarrow>
      let s3 = s2\<lparr>achievements := (achievements s2)[i := (achievements s2 ! i)\<lparr>unlock_time := now\<rparr>]\<rparr>;
          s4 = snd (send_notification (unlock_message (achievements s3 ! i)) ''achievement'' 5 s3);
          s5 = log_engine_event ''Achievement unlocked'' s4
      in then_do (save_engine_data s5) (\<lambda>_ s6. Returns () s6))"

text \<open>The \<^verbatim>\<open>for\<close> loop of \<^verbatim>\<open>unlock_achievement\<close> over the indices left; it ends at the first match.\<close>

fun unlock_loop :: "nat list \<Rightarrow> string \<Rightarrow> system \<Rightarrow> unit outcome" where
  "unlock_loop [] ident s = Returns () s"
| "unlock_loop (i # rest) ident s =
     (if id_field (achievements s ! i) = ident \<and> unlocked (achievements s ! i) = 0
      then unlock_at i s
      else unlock_loop rest ident s)"

definition unlock_achievement :: "string \<Rightarrow> system \<Rightarrow> unit outcome" where
  "unlock_achievement ident s = unlock_loop [0..<nat (achievement_count s)] ident s"

text \<open>\<^verbatim>\<open>boot_count++\<close> on a 32-bit \<^verbatim>\<open>int\<close>, wrapping round.\<close>

definition wrap_int :: "int \<Rightarrow> int" where
  "wrap_int v = (v + 2 ^ 31) mod 2 ^ 32 - 2 ^ 31"

text \<open>
  Either \<^verbatim>\<open>for\<close> loop of \<^verbatim>\<open>check_achievement_progress\<close>, over the indices left: \<open>ident\<close> is
  the id it looks for and \<open>counter\<close> reads the counter it compares with the target.
\<close>

fun check_loop :: "nat list \<Rightarrow> string \<Rightarrow> (system \<Rightarrow> int) \<Rightarrow> system \<Rightarrow> unit outcome" where
  "check_loop [] ident counter s = Returns () s"
| "check_loop (i # rest) ident counter s =
     (if id_field (achievements s ! i) = ident \<and> counter s \<ge> target (achievements s ! i)
         \<and> unlocked (achievements s ! i) = 0
      then then_do (unlock_achievement ident s) (\<lambda>_ s'. check_loop rest ident counter s')
      else check_loop rest ident counter s)"

definition check_achievement_progress :: "system \<Rightarrow> unit outcome" where
  "check_achievement_progress s =
     (let s1 = s\<lparr>boot_count := wrap_int (boot_count s + 1)\<rparr> in
      then_do (check_loop [0..<nat (achievement_count s1)] ''boot_master'' boot_count s1) (\<lambda>_ s2.
        check_loop [0..<nat (achievement_count s2)] ''wayland_pro'' wayland_events s2))"

section \<open>The worker threads, one round of each loop\<close>

text \<open>Every loop is \<^verbatim>\<open>while (engine.enabled) { ... }\<close>: with the flag at 0 the thread ends.\<close>

definition achievement_monitor_tick :: "system \<Rightarrow> unit outcome" where
  "achievement_monitor_tick s =
     (if enabled s = 0 then Returns () s
      else then_do (pthread_mutex_lock s) (\<lambda>_ s1.
             then_do (check_achievement_progress s1) (\<lambda>_ s2.
               Returns () (pthread_mutex_unlock s2))))"

text \<open>\<open>len\<close> is what \<^verbatim>\<open>read(fd, buffer, INOTIFY_BUFFER_SIZE)\<close> returned.\<close>

definition kernel_hook_tick :: "int \<Rightarrow> system \<Rightarrow> unit outcome" where
  "kernel_hook_tick len s =
     (if enabled s = 0 then Returns () s
      else if len > 0
      then then_do (pthread_mutex_lock s) (\<lambda>_ s1.
             then_do (check_achievement_progress s1) (\<lambda>_ s2.
               Returns () (pthread_mutex_unlock s2)))
      else Returns () s)"

text \<open>
  The block \<^verbatim>\<open>if (engine.notification_head != engine.notification_tail) { ... }\<close> of the
  dispatcher; the value is the local \<^verbatim>\<open>notif\<close>, when the block ran.
\<close>

definition dispatch_queued :: "system \<Rightarrow> Notification option \<times> system" where
  "dispatch_queued s =
     (if notification_head s \<noteq> notification_tail s
      then
        let notif = notification_queue s ! nat (notification_head s);
            s1 = snd (send_notification (message notif) (type_field notif) (priority notif) s)
        in (Some notif,
            s1\<lparr>notification_head := (notification_head s1 + 1) mod MAX_NOTIFICATIONS,
               notification_count := notification_count s1 - 1\<rparr>)
      else (None, s))"

definition notification_dispatcher_tick :: "system \<Rightarrow> unit outcome" where
  "notification_dispatcher_tick s =
     (if enabled s = 0 then Returns () s
      else then_do (pthread_mutex_lock s) (\<lambda>_ s1.
             let s2 = pthread_mutex_unlock (snd (dispatch_queued s1)) in
             case rand s2 of (r, s3) \<Rightarrow>
               Returns () (if r mod 100 < 5 then generate_random_notification s3 else s3)))"

text \<open>
  The block \<^verbatim>\<open>if (event_count % 50 == 0 && engine.notification_count < MAX_NOTIFICATIONS - 1)
  { ... }\<close> of the Wayland listener; the value tells whether the block ran.
\<close>

definition queue_progress_notification :: "system \<Rightarrow> bool \<times> system" where
  "queue_progress_notification s =
     (if event_count s mod 50 = 0 \<and> notification_count s < MAX_NOTIFICATIONS - 1
      then
        case time_now s of (now, s1) \<Rightarrow>
          (True,
           s1\<lparr>notification_queue := (notification_queue s1)[nat (notification_tail s1) :=
                  \<lparr>message = snprintf 256 (''Wayland events: '' @ show_int (event_count s1) @ '' processed''),
                   type_field = ''system'', timestamp = now, priority = 1\<rparr>],
               notification_tail := (notification_tail s1 + 1) mod MAX_NOTIFICATIONS,
               notification_count := notification_count s1 + 1\<rparr>)
      else (False, s))"

definition wayland_event_tick :: "system \<Rightarrow> unit outcome" where
  "wayland_event_tick s =
     (if enabled s = 0 then Returns () s
      else case rand s of (r, s1) \<Rightarrow>
        let s2 = s1\<lparr>event_count := wrap_int (event_count s1 + r mod 10)\<rparr> in
        then_do (pthread_mutex_lock s2) (\<lambda>_ s3.
          Returns () (pthread_mutex_unlock (snd (queue_progress_notification s3)))))"

section \<open>Start of the program\<close>

definition zero_achievement :: Achievement where
  "zero_achievement =
     \<lparr>id_field = [], name = [], description = [], progress = 0, target = 0, unlocked = 0,
      unlock_time = 0\<rparr>"

definition zero_notification :: Notification where
  "zero_notification = \<lparr>message = [], type_field = [], timestamp = 0, priority = 0\<rparr>"

text \<open>
  \<^verbatim>\<open>SweetEngine engine = {0};\<close> and the \<^verbatim>\<open>static int ... = 0;\<close> counters, in the world \<open>w\<close>
  (of which only the world fields are used).
\<close>

definition program_start :: "system \<Rightarrow> system" where
  "program_start w =
     w\<lparr>enabled := 0, data_mutex := False,
       achievements := replicate (nat MAX_ACHIEVEMENTS) zero_achievement, achievement_count := 0,
       notification_queue := replicate (nat MAX_NOTIFICATIONS) zero_notification,
       notification_count := 0, notification_head := 0, notification_tail := 0,
       boot_count := 0, wayland_events := 0, event_count := 0\<rparr>"

text \<open>\<^verbatim>\<open>init_directories\<close>: the store file is created, empty, if it is missing.\<close>

definition init_directories :: "system \<Rightarrow> system" where
  "init_directories s =
     (if data_writable s \<and> data_file s = None then s\<lparr>data_file := Some []\<rparr> else s)"

text \<open>
  \<^verbatim>\<open>main\<close> up to the creation of the threads; the value is \<open>True\<close> when the threads are
  started and \<open>False\<close> when \<^verbatim>\<open>main\<close> returns at once. The result of \<^verbatim>\<open>load_engine_data\<close>
  is not looked at.
\<close>

definition main_startup :: "system \<Rightarrow> bool \<times> system" where
  "main_startup w =
     (let s0 = printf ''SweetExperiencesEngine starting...\<newline>'' (program_start w);
          s1 = init_directories s0
      in case load_config s1 of (ok, s2) \<Rightarrow>
        if ok = 0 then (False, printf ''SweetEngine: Disabled by config\<newline>'' s2)
        else
          let s3 = snd (load_engine_data s2);
              s4 = printf (''SweetEngine: Initialized with '' @ show_int (achievement_count s3)
                     @ '' achievements\<newline>'') s3
          in (True, log_engine_event ''Engine started'' s4))"

section \<open>Runs of the program\<close>

text \<open>
  What can happen between two states of the machine: one round of the loop of one of the
  four worker threads (\<open>len\<close> is what the thread's \<^verbatim>\<open>read\<close> returned), one round of the
  watch loop of \<^verbatim>\<open>main\<close>, a change of the configuration file from outside, and, to state
  what repeated unlock attempts do, a direct call of \<^verbatim>\<open>unlock_achievement\<close>.
\<close>

datatype event =
    Monitor_tick
  | Kernel_hook_tick int
  | Dispatcher_tick
  | Wayland_tick
  | Config_tick int
  | Ini_written "string option"
  | Unlock_call string

fun exec :: "event \<Rightarrow> system \<Rightarrow> unit outcome" where
  "exec Monitor_tick s = achievement_monitor_tick s"
| "exec (Kernel_hook_tick len) s = kernel_hook_tick len s"
| "exec Dispatcher_tick s = notification_dispatcher_tick s"
| "exec Wayland_tick s = wayland_event_tick s"
| "exec (Config_tick len) s = Returns () (config_watch_tick len s)"
| "exec (Ini_written content) s = Returns () (s\<lparr>ini_file := content\<rparr>)"
| "exec (Unlock_call ident) s = unlock_achievement ident s"

text \<open>The events the program produces by itself: all but the direct unlock call.\<close>

fun engine_event :: "event \<Rightarrow> bool" where
  "engine_event (Unlock_call ident) = False"
| "engine_event e = True"

text \<open>
  The states a run goes through. A thread that blocks stays in the state it blocked in
  and the other threads go on from there; after a call that leaves defined C nothing more
  is said.
\<close>

fun trace :: "event list \<Rightarrow> system \<Rightarrow> system list" where
  "trace [] s = [s]"
| "trace (e # es) s =
     s # (case exec e s of Undefined s' \<Rightarrow> [s'] | Blocked s' \<Rightarrow> trace es s' | Returns v s' \<Rightarrow> trace es s')"

fun blocked :: "'a outcome \<Rightarrow> bool" where
  "blocked (Blocked s) = True"
| "blocked r = False"

fun overrun :: "'a outcome \<Rightarrow> bool" where
  "overrun (Undefined s) = True"
| "overrun r = False"

section \<open>Invariants and abstractions\<close>

subsection \<open>The notification queue\<close>

text \<open>
  The bounds of the array and of the three indices; the tail is \<open>count\<close> slots after the
  head. The producer's guard keeps \<open>count\<close> below \<^verbatim>\<open>MAX_NOTIFICATIONS\<close>.
\<close>

definition queue_ok :: "system \<Rightarrow> bool" where
  "queue_ok s =
     (length (notification_queue s) = nat MAX_NOTIFICATIONS
      \<and> 0 \<le> notification_head s \<and> notification_head s < MAX_NOTIFICATIONS
      \<and> 0 \<le> notification_count s \<and> notification_count s < MAX_NOTIFICATIONS
      \<and> notification_tail s = (notification_head s + notification_count s) mod MAX_NOTIFICATIONS)"

text \<open>The queued notifications, oldest first: the \<open>count\<close> slots from the head on.\<close>

definition pending :: "system \<Rightarrow> Notification list" where
  "pending s =
     map (\<lambda>k. notification_queue s ! nat ((notification_head s + int k) mod MAX_NOTIFICATIONS))
       [0..<nat (notification_count s)]"

text \<open>The notification the Wayland listener's block stores when it runs in \<open>s\<close>.\<close>

definition progress_item :: "system \<Rightarrow> Notification" where
  "progress_item s =
     \<lparr>message = snprintf 256 (''Wayland events: '' @ show_int (event_count s) @ '' processed''),
      type_field = ''system'', timestamp = clock s (time_calls s), priority = 1\<rparr>"

definition same_queue :: "system \<Rightarrow> system \<Rightarrow> bool" where
  "same_queue s s' =
     (notification_queue s' = notification_queue s \<and> notification_count s' = notification_count s
      \<and> notification_head s' = notification_head s \<and> notification_tail s' = notification_tail s)"

text \<open>\<open>n\<close> runs of the producer's block, and \<open>n\<close> runs of the dispatcher's block with what
  each of them took from the queue.\<close>

fun push_n :: "nat \<Rightarrow> system \<Rightarrow> system" where
  "push_n 0 s = s"
| "push_n (Suc n) s = snd (queue_progress_notification (push_n n s))"

fun pop_n :: "nat \<Rightarrow> system \<Rightarrow> Notification option list \<times> system" where
  "pop_n 0 s = ([], s)"
| "pop_n (Suc n) s =
     (fst (dispatch_queued s) # fst (pop_n n (snd (dispatch_queued s))),
      snd (pop_n n (snd (dispatch_queued s))))"

text \<open>The notification the \<open>k\<close>-th accepted push after \<open>s\<close> stores (it calls \<^verbatim>\<open>time\<close> once).\<close>

definition nth_item :: "system \<Rightarrow> nat \<Rightarrow> Notification" where
  "nth_item s k = progress_item (s\<lparr>time_calls := time_calls s + k\<rparr>)"

definition upto99 :: "nat \<Rightarrow> nat" where
  "upto99 n = (if n < 99 then n else 99)"

text \<open>
  The parts of a round of the dispatcher and of the Wayland listener: the dispatcher's
  locked block, its part outside the lock, and the listener's step before it locks.
\<close>

definition after_dispatch :: "system \<Rightarrow> system" where
  "after_dispatch s = pthread_mutex_unlock (snd (dispatch_queued (s\<lparr>data_mutex := True\<rparr>)))"

definition ambient_part :: "system \<Rightarrow> system" where
  "ambient_part s =
     (case rand s of (r, s3) \<Rightarrow> if r mod 100 < 5 then generate_random_notification s3 else s3)"

definition after_listen :: "system \<Rightarrow> system" where
  "after_listen s =
     s\<lparr>rand_calls := Suc (rand_calls s),
       event_count := wrap_int (event_count s + int (rand_values s (rand_calls s)) mod 10)\<rparr>"

definition connect_failure_text :: string where
  "connect_failure_text = ''SweetEngine: Failed to connect to NotifEngine\<newline>''"

subsection \<open>The achievement catalog\<close>

text \<open>The bounds of the array \<^verbatim>\<open>engine.achievements\<close> and of its count.\<close>

definition engine_ok :: "system \<Rightarrow> bool" where
  "engine_ok s =
     (length (achievements s) = nat MAX_ACHIEVEMENTS
      \<and> 0 \<le> achievement_count s \<and> achievement_count s \<le> MAX_ACHIEVEMENTS)"

text \<open>
  What can become of one achievement record: nothing, or, when it is locked and its id is
  one of \<open>P\<close>, the flag goes to 1 and the unlock time is set; no other field changes.
\<close>

definition unlock_step :: "(string \<Rightarrow> bool) \<Rightarrow> Achievement \<Rightarrow> Achievement \<Rightarrow> bool" where
  "unlock_step P a a' =
     (a' = a \<or> (P (id_field a) \<and> unlocked a = 0 \<and> a' = a\<lparr>unlocked := 1, unlock_time := unlock_time a'\<rparr>))"

definition ach_frame :: "(string \<Rightarrow> bool) \<Rightarrow> system \<Rightarrow> system \<Rightarrow> bool" where
  "ach_frame P s s' =
     (achievement_count s' = achievement_count s \<and> wayland_events s' = wayland_events s
      \<and> list_all2 (unlock_step P) (achievements s) (achievements s'))"

definition eval_frame :: "(string \<Rightarrow> bool) \<Rightarrow> system \<Rightarrow> system \<Rightarrow> bool" where
  "eval_frame P s s' = (ach_frame P s s' \<and> same_queue s s' \<and> enabled s' = enabled s
     \<and> event_count s' = event_count s)"

definition slot_step :: "nat \<Rightarrow> system \<Rightarrow> system \<Rightarrow> bool" where
  "slot_step i s s' = unlock_step (\<lambda>x. True) (achievements s ! i) (achievements s' ! i)"

text \<open>Slot \<open>i\<close> goes from locked to unlocked between two states; how often along a run.\<close>

definition unlock_transition :: "nat \<Rightarrow> system \<Rightarrow> system \<Rightarrow> bool" where
  "unlock_transition i s s' =
     (unlocked (achievements s ! i) = 0 \<and> unlocked (achievements s' ! i) \<noteq> 0)"

fun transitions :: "nat \<Rightarrow> system list \<Rightarrow> nat" where
  "transitions i [] = 0"
| "transitions i [s] = 0"
| "transitions i (s # s' # rest) =
     (if unlock_transition i s s' then 1 else 0) + transitions i (s' # rest)"

text \<open>The counter of the second loop of the evaluator is 0 and every \<^verbatim>\<open>wayland_pro\<close> entry of
  the catalog has a positive target.\<close>

definition wayland_idle :: "system \<Rightarrow> bool" where
  "wayland_idle s =
     (wayland_events s = 0
      \<and> (\<forall>k < nat (achievement_count s).
            id_field (achievements s ! k) = ''wayland_pro'' \<longrightarrow> 0 < target (achievements s ! k)))"

subsection \<open>The store file\<close>

text \<open>The loop of \<^verbatim>\<open>load_engine_data\<close> on the two fields it writes, the array and the count.\<close>

fun load_entries :: "string list \<Rightarrow> Achievement list \<times> int \<Rightarrow> Achievement list \<times> int" where
  "load_entries [] ac = ac"
| "load_entries (line # rest) ac =
     (if snd ac < MAX_ACHIEVEMENTS
      then load_entries rest
        (if take 4 line = ''ACH:''
         then ((fst ac)[nat (snd ac) := sscanf_achievement (drop 4 line) (fst ac ! nat (snd ac))],
               snd ac + 1)
         else ac)
      else ac)"

text \<open>
  The records that come back from the store as they went in: every text field is not
  empty, fits its array with the terminating NUL and holds no bar, newline or NUL byte, and
  every number is in the range of its C type (\<^verbatim>\<open>int\<close> of 32 bits, \<^verbatim>\<open>time_t\<close> of 64).
\<close>

definition int_ok :: "int \<Rightarrow> bool" where
  "int_ok v = (- (2 ^ 31) \<le> v \<and> v < 2 ^ 31)"

definition long_ok :: "int \<Rightarrow> bool" where
  "long_ok v = (- (2 ^ 63) \<le> v \<and> v < 2 ^ 63)"

definition text_ok :: "nat \<Rightarrow> string \<Rightarrow> bool" where
  "text_ok n t = (t \<noteq> [] \<and> length t \<le> n \<and> BAR \<notin> set t \<and> NL \<notin> set t \<and> NUL \<notin> set t)"

definition storable :: "Achievement \<Rightarrow> bool" where
  "storable a =
     (text_ok 31 (id_field a) \<and> text_ok 63 (name a) \<and> text_ok 127 (description a)
      \<and> int_ok (progress a) \<and> int_ok (target a) \<and> int_ok (unlocked a) \<and> long_ok (unlock_time a))"

text \<open>A record's line without the prefix and the newline, and with the prefix.\<close>

definition record_body :: "Achievement \<Rightarrow> string" where
  "record_body a =
     id_field a @ ''|'' @ name a @ ''|'' @ description a @ ''|'' @ show_int (progress a)
       @ ''|'' @ show_int (target a) @ ''|'' @ show_int (unlocked a) @ ''|'' @ show_int (unlock_time a)"

definition record_line :: "Achievement \<Rightarrow> string" where
  "record_line a = ''ACH:'' @ record_body a"

definition store_header :: string where
  "store_header = ''SWEETENGINE_DATA_v1''"

text \<open>The text \<^verbatim>\<open>save_engine_data\<close> formats for a catalog: the header line and one line per
  record.\<close>

definition store_text_of :: "Achievement list \<Rightarrow> string" where
  "store_text_of catalog = store_header @ [NL] @ concat (map achievement_line catalog)"

section \<open>Example machines\<close>

text \<open>
  A world (only its world fields matter, \<open>program_start\<close> sets the program's variables):
  the configuration enables the engine, the store holds the header line only, no consumer
  listens on the socket, the k-th call of \<^verbatim>\<open>time\<close> returns 1700000000 + k, and \<^verbatim>\<open>rand\<close>
  always returns 50.
\<close>

definition sample_world :: system where
  "sample_world =
     \<lparr>enabled = 0, data_mutex = False, achievements = [], achievement_count = 0,
      notification_queue = [], notification_count = 0, notification_head = 0,
      notification_tail = 0, boot_count = 0, wayland_events = 0, event_count = 0,
      ini_file = Some ''SWEETENGINE=true\<newline>'', data_file = Some ''SWEETENGINE_DATA_v1\<newline>'',
      data_readable = True, data_writable = True, log_file = [], log_writable = True,
      stdout_text = [], stderr_text = [], socket_out = [],
      clock = (\<lambda>k. 1700000000 + int k), time_calls = 0,
      connect_ok = (\<lambda>k. False), connect_calls = 0,
      rand_values = (\<lambda>k. 50), rand_calls = 0,
      ctime_text = (\<lambda>t. ''Thu Jan  1 00:00:00 1970\<newline>'')\<rparr>"

text \<open>The engine after its start in that world (it holds the two default achievements),
  and the same with one queued notification.\<close>

definition sample_start :: system where
  "sample_start = snd (main_startup sample_world)"

definition sample_queued :: system where
  "sample_queued = push_n 1 sample_start"

text \<open>
  The engine after nine rounds of the achievement monitor: the boot counter is at 9, one
  short of the target of \<^verbatim>\<open>boot_master\<close>. In the tenth round the monitor takes the mutex
  and \<^verbatim>\<open>check_achievement_progress\<close> counts the boot counter up; \<open>sample_locked\<close> is the
  state in which it then enters its first loop.
\<close>

definition sample_due :: system where
  "sample_due = last (trace (replicate 9 Monitor_tick) sample_start)"

definition sample_locked :: system where
  "sample_locked = sample_due\<lparr>data_mutex := True, boot_count := wrap_int (boot_count sample_due + 1)\<rparr>"

text \<open>A new process in the world a save in \<open>s\<close> leaves behind.\<close>

definition sample_restart :: "system \<Rightarrow> system" where
  "sample_restart s = program_start (state_of (save_engine_data s))"

text \<open>A catalog of one record with an empty name, and a catalog of 50 records with text
  fields of full length.\<close>

definition sample_blank_name :: system where
  "sample_blank_name =
     (program_start sample_world)
       \<lparr>achievements := (replicate 50 zero_achievement)
          [0 := \<lparr>id_field = ''a'', name = [], description = ''d'', progress = 1, target = 2,
                 unlocked = 0, unlock_time = 0\<rparr>],
        achievement_count := 1\<rparr>"

definition sample_full :: system where
  "sample_full =
     (program_start sample_world)
       \<lparr>achievements := replicate 50
          \<lparr>id_field = replicate 31 CHR ''i'', name = replicate 63 CHR ''n'',
           description = replicate 127 CHR ''d'', progress = 1, target = 2,
           unlocked = 0, unlock_time = 0\<rparr>,
        achievement_count := 50\<rparr>"



section \<open>Basic facts\<close>

lemmas world_defs = time_now_def rand_def printf_def eprintf_def connect_notif_engine_def
  send_notification_def log_engine_event_def generate_random_notification_def

lemma mod_wrap:
  fixes x :: int
  shows "100 \<le> x \<Longrightarrow> x < 200 \<Longrightarrow> x mod 100 = x - 100"
  by (rule int_mod_pos_eq [where q = 1]) simp_all

lemma ring_same_iff:
  fixes h c :: int
  assumes "0 \<le> h" "h < 100" "0 \<le> c" "c < 100"
  shows "(h = (h + c) mod 100) = (c = 0)"
proof (cases "h + c < 100")
  case True
  then have "(h + c) mod 100 = h + c" using assms by simp
  then show ?thesis by simp
next
  case False
  then have "(h + c) mod 100 = h + c - 100" using assms by (intro mod_wrap) simp_all
  then show ?thesis using assms by simp
qed

lemma ring_step:
  fixes h c :: int
  shows "((h + 1) mod 100 + (c - 1)) mod 100 = (h + c) mod 100"
  by (simp add: mod_add_left_eq)

lemma queue_ok_bounds:
  assumes "queue_ok s"
  shows "0 \<le> notification_head s" "notification_head s < 100" "0 \<le> notification_count s"
    "notification_count s < 100" "notification_count s \<le> 99"
    "notification_tail s = (notification_head s + notification_count s) mod 100"
    "length (notification_queue s) = 100"
  using assms unfolding queue_ok_def MAX_NOTIFICATIONS_def by simp_all

lemma queue_ok_empty_iff:
  assumes "queue_ok s"
  shows "(notification_head s = notification_tail s) = (notification_count s = 0)"
  unfolding queue_ok_bounds(6) [OF assms]
  by (rule ring_same_iff) (rule queue_ok_bounds [OF assms])+

lemma send_notification_queue [simp]:
  "notification_queue (snd (send_notification m t p s)) = notification_queue s"
  "notification_count (snd (send_notification m t p s)) = notification_count s"
  "notification_head (snd (send_notification m t p s)) = notification_head s"
  "notification_tail (snd (send_notification m t p s)) = notification_tail s"
  by (simp_all add: world_defs split: prod.splits bool.splits)

lemma pending_Cons:
  assumes "queue_ok s" "notification_count s \<noteq> 0"
  shows "pending s = notification_queue s ! nat (notification_head s)
           # map (\<lambda>k. notification_queue s ! nat ((notification_head s + 1 + int k) mod 100))
               [0..<nat (notification_count s - 1)]"
proof -
  obtain n where n: "nat (notification_count s) = Suc n"
    using assms queue_ok_bounds(3) [OF assms(1)] by (cases "nat (notification_count s)") auto
  have n1: "nat (notification_count s - 1) = n" using n by linarith
  have h: "notification_head s mod 100 = notification_head s"
    using queue_ok_bounds(1,2) [OF assms(1)] by simp
  have u: "[0..<Suc n] = 0 # map Suc [0..<n]"
    by (simp add: upt_conv_Cons map_Suc_upt del: upt_Suc)
  have a: "\<And>k. notification_head s + int (Suc k) = notification_head s + 1 + int k"
    by simp
  show ?thesis
    unfolding pending_def n n1 u MAX_NOTIFICATIONS_def list.map map_map o_def a
    by (simp only: h of_nat_0 add_0_right)
qed

lemma dispatch_queued_empty:
  "queue_ok s \<Longrightarrow> notification_count s = 0 \<Longrightarrow> dispatch_queued s = (None, s)"
  by (simp add: dispatch_queued_def queue_ok_empty_iff)

lemma dispatch_queued_nonempty:
  assumes "queue_ok s" "notification_count s \<noteq> 0"
  shows "dispatch_queued s =
    (Some (notification_queue s ! nat (notification_head s)),
     (snd (send_notification (message (notification_queue s ! nat (notification_head s)))
        (type_field (notification_queue s ! nat (notification_head s)))
        (priority (notification_queue s ! nat (notification_head s))) s))
      \<lparr>notification_head := (notification_head s + 1) mod 100,
       notification_count := notification_count s - 1\<rparr>)"
  using assms queue_ok_empty_iff [OF assms(1)]
  by (simp add: dispatch_queued_def Let_def MAX_NOTIFICATIONS_def)

lemma dispatch_queued_pop:
  assumes "queue_ok s" "notification_count s \<noteq> 0"
  shows "fst (dispatch_queued s) = Some (hd (pending s))"
    and "pending (snd (dispatch_queued s)) = tl (pending s)"
    and "queue_ok (snd (dispatch_queued s))"
    and "notification_count (snd (dispatch_queued s)) = notification_count s - 1"
proof -
  note b = queue_ok_bounds [OF assms(1)]
  note d = dispatch_queued_nonempty [OF assms]
  show "fst (dispatch_queued s) = Some (hd (pending s))"
    unfolding d pending_Cons [OF assms] by simp
  show "notification_count (snd (dispatch_queued s)) = notification_count s - 1"
    unfolding d by simp
  show "queue_ok (snd (dispatch_queued s))"
    unfolding d queue_ok_def MAX_NOTIFICATIONS_def using b assms(2)
    by (simp add: ring_step)
  show "pending (snd (dispatch_queued s)) = tl (pending s)"
    unfolding pending_Cons [OF assms] d
    by (simp add: pending_def MAX_NOTIFICATIONS_def mod_add_left_eq)
qed

lemma ring_inj:
  fixes h k c :: int
  assumes "0 \<le> k" "k < c" "c < 100"
  shows "(h + k) mod 100 \<noteq> (h + c) mod 100"
proof
  assume "(h + k) mod 100 = (h + c) mod 100"
  then have "(h + c) mod 100 = (h + k) mod 100" by simp
  then have "100 dvd (h + c) - (h + k)" by (simp only: mod_eq_dvd_iff)
  then have "100 dvd c - k" by simp
  moreover have "0 < c - k" "c - k < 100" using assms by simp_all
  ultimately show False using zdvd_not_zless by blast
qed

lemma push_accepted:
  assumes "event_count s mod 50 = 0" "notification_count s < 99"
  shows "queue_progress_notification s =
    (True, s\<lparr>time_calls := Suc (time_calls s),
             notification_queue := (notification_queue s)[nat (notification_tail s) := progress_item s],
             notification_tail := (notification_tail s + 1) mod 100,
             notification_count := notification_count s + 1\<rparr>)"
  using assms
  by (simp add: queue_progress_notification_def time_now_def MAX_NOTIFICATIONS_def progress_item_def)

lemma push_rejected:
  "\<not> (event_count s mod 50 = 0 \<and> notification_count s < 99)
    \<Longrightarrow> queue_progress_notification s = (False, s)"
  by (auto simp add: queue_progress_notification_def MAX_NOTIFICATIONS_def)

lemma push_pending:
  assumes "queue_ok s" "event_count s mod 50 = 0" "notification_count s < 99"
  shows "pending (snd (queue_progress_notification s)) = pending s @ [progress_item s]"
    and "queue_ok (snd (queue_progress_notification s))"
proof -
  note b = queue_ok_bounds [OF assms(1)]
  note p = push_accepted [OF assms(2,3)]
  let ?c = "notification_count s"
  let ?h = "notification_head s"
  let ?q = "(notification_queue s)[nat (notification_tail s) := progress_item s]"
  have n: "nat (?c + 1) = Suc (nat ?c)" using b by simp
  have t: "nat (notification_tail s) < length (notification_queue s)"
    unfolding b(6) b(7) by simp
  have old: "?q ! nat ((?h + int k) mod 100) = notification_queue s ! nat ((?h + int k) mod 100)"
    if "k < nat ?c" for k
  proof -
    have "(?h + int k) mod 100 \<noteq> (?h + ?c) mod 100"
      using that b by (intro ring_inj) simp_all
    then have "nat ((?h + int k) mod 100) \<noteq> nat (notification_tail s)"
      unfolding b(6) by simp
    then show ?thesis by simp
  qed
  have new: "?q ! nat ((?h + int (nat ?c)) mod 100) = progress_item s"
    using t b by (simp add: b(6))
  have "map (\<lambda>k. ?q ! nat ((?h + int k) mod 100)) [0..<nat ?c]
      = map (\<lambda>k. notification_queue s ! nat ((?h + int k) mod 100)) [0..<nat ?c]"
    by (rule map_cong) (simp_all add: old)
  then show "pending (snd (queue_progress_notification s)) = pending s @ [progress_item s]"
    unfolding p pending_def MAX_NOTIFICATIONS_def using new by (simp add: n)
  show "queue_ok (snd (queue_progress_notification s))"
    unfolding p queue_ok_def MAX_NOTIFICATIONS_def using b assms(3)
    by (simp add: mod_add_left_eq add.assoc)
qed

lemma send_notification_engine [simp]:
  "achievements (snd (send_notification m t p s)) = achievements s"
  "achievement_count (snd (send_notification m t p s)) = achievement_count s"
  "wayland_events (snd (send_notification m t p s)) = wayland_events s"
  "event_count (snd (send_notification m t p s)) = event_count s"
  "boot_count (snd (send_notification m t p s)) = boot_count s"
  "enabled (snd (send_notification m t p s)) = enabled s"
  "data_mutex (snd (send_notification m t p s)) = data_mutex s"
  by (simp_all add: world_defs split: prod.splits bool.splits)

lemma log_engine_event_engine [simp]:
  "achievements (log_engine_event e s) = achievements s"
  "achievement_count (log_engine_event e s) = achievement_count s"
  "wayland_events (log_engine_event e s) = wayland_events s"
  "event_count (log_engine_event e s) = event_count s"
  "boot_count (log_engine_event e s) = boot_count s"
  "enabled (log_engine_event e s) = enabled s"
  "data_mutex (log_engine_event e s) = data_mutex s"
  "notification_queue (log_engine_event e s) = notification_queue s"
  "notification_count (log_engine_event e s) = notification_count s"
  "notification_head (log_engine_event e s) = notification_head s"
  "notification_tail (log_engine_event e s) = notification_tail s"
  by (simp_all add: world_defs split: prod.splits)

lemma state_of_then_do:
  "state_of (then_do m f) =
     (case m of Returns v s \<Rightarrow> state_of (f v s) | Blocked s \<Rightarrow> s | Undefined s \<Rightarrow> s)"
  by (cases m) simp_all

lemma save_engine_data_engine [simp]:
  "achievements (state_of (save_engine_data s)) = achievements s"
  "achievement_count (state_of (save_engine_data s)) = achievement_count s"
  "wayland_events (state_of (save_engine_data s)) = wayland_events s"
  "event_count (state_of (save_engine_data s)) = event_count s"
  "boot_count (state_of (save_engine_data s)) = boot_count s"
  "enabled (state_of (save_engine_data s)) = enabled s"
  "notification_queue (state_of (save_engine_data s)) = notification_queue s"
  "notification_count (state_of (save_engine_data s)) = notification_count s"
  "notification_head (state_of (save_engine_data s)) = notification_head s"
  "notification_tail (state_of (save_engine_data s)) = notification_tail s"
  by (simp_all add: save_engine_data_def pthread_mutex_lock_def pthread_mutex_unlock_def Let_def
      split: option.splits)

lemma unlock_step_refl [simp]: "unlock_step P a a"
  by (simp add: unlock_step_def)

lemma unlock_step_trans:
  "unlock_step P a b \<Longrightarrow> unlock_step P b c \<Longrightarrow> unlock_step P a c"
  unfolding unlock_step_def
proof (elim disjE conjE)
  assume b: "b = a\<lparr>unlocked := 1, unlock_time := unlock_time b\<rparr>" and "unlocked b = 0"
  have "unlocked b = 1" by (subst b) simp
  then show "c = a \<or> P (id_field a) \<and> unlocked a = 0 \<and> c = a\<lparr>unlocked := 1, unlock_time := unlock_time c\<rparr>"
    using \<open>unlocked b = 0\<close> by simp
qed simp_all

lemma unlock_step_mono:
  "unlock_step P a b \<Longrightarrow> (\<And>x. P x \<Longrightarrow> Q x) \<Longrightarrow> unlock_step Q a b"
  unfolding unlock_step_def by blast

lemma list_all2_unlock_refl [simp]: "list_all2 (unlock_step P) xs xs"
  by (simp add: list_all2_refl)

lemma ach_frame_refl [simp]: "ach_frame P s s"
  by (simp add: ach_frame_def)

lemma ach_frame_trans:
  "ach_frame P s t \<Longrightarrow> ach_frame P t u \<Longrightarrow> ach_frame P s u"
  unfolding ach_frame_def
  by (auto intro: list_all2_trans [where ?P1.0 = "unlock_step P" and ?P2.0 = "unlock_step P"]
      unlock_step_trans)

lemma ach_frame_mono:
  "ach_frame P s t \<Longrightarrow> (\<And>x. P x \<Longrightarrow> Q x) \<Longrightarrow> ach_frame Q s t"
  unfolding ach_frame_def
  by (auto elim!: list_all2_mono intro: unlock_step_mono)

lemma same_queue_refl [simp]: "same_queue s s"
  by (simp add: same_queue_def)

lemma same_queue_trans: "same_queue s t \<Longrightarrow> same_queue t u \<Longrightarrow> same_queue s u"
  by (simp add: same_queue_def)

lemma eval_frame_refl [simp]: "eval_frame P s s"
  by (simp add: eval_frame_def)

lemma eval_frame_trans: "eval_frame P s t \<Longrightarrow> eval_frame P t u \<Longrightarrow> eval_frame P s u"
  unfolding eval_frame_def by (auto intro: ach_frame_trans same_queue_trans)

lemma eval_frame_mono:
  "eval_frame P s t \<Longrightarrow> (\<And>x. P x \<Longrightarrow> Q x) \<Longrightarrow> eval_frame Q s t"
  unfolding eval_frame_def by (auto intro: ach_frame_mono)

lemma state_of_then_return [simp]:
  "state_of (then_do m (\<lambda>_ s. Returns v s)) = state_of m"
  by (cases m) simp_all

lemma unlock_at_achievements:
  "achievements (state_of (unlock_at i s)) =
     (achievements s)[i := (achievements s ! i)\<lparr>unlocked := 1, unlock_time := clock s (time_calls s)\<rparr>]"
proof (cases "i < length (achievements s)")
  case True
  then show ?thesis
    by (simp add: unlock_at_def time_now_def Let_def)
next
  case False
  then have "length (achievements s) \<le> i" by simp
  then show ?thesis
    by (simp add: unlock_at_def time_now_def Let_def list_update_beyond)
qed

lemma unlock_at_frame:
  assumes "P (id_field (achievements s ! i))" "unlocked (achievements s ! i) = 0"
  shows "eval_frame P s (state_of (unlock_at i s))"
proof -
  have "list_all2 (unlock_step P) ((achievements s)[i := achievements s ! i])
     ((achievements s)[i := (achievements s ! i)\<lparr>unlocked := 1, unlock_time := clock s (time_calls s)\<rparr>])"
    using assms by (intro list_all2_update_cong) (simp_all add: unlock_step_def)
  then have "list_all2 (unlock_step P) (achievements s) (achievements (state_of (unlock_at i s)))"
    by (simp add: unlock_at_achievements)
  moreover have "achievement_count (state_of (unlock_at i s)) = achievement_count s"
    "wayland_events (state_of (unlock_at i s)) = wayland_events s"
    "same_queue s (state_of (unlock_at i s))"
    "enabled (state_of (unlock_at i s)) = enabled s"
    "event_count (state_of (unlock_at i s)) = event_count s"
    by (simp_all add: unlock_at_def time_now_def Let_def same_queue_def)
  ultimately show ?thesis
    by (simp add: eval_frame_def ach_frame_def)
qed

lemma unlock_loop_frame:
  "eval_frame (\<lambda>x. x = ident) s (state_of (unlock_loop idxs ident s))"
  by (induction idxs) (simp_all add: unlock_at_frame)

lemma unlock_achievement_frame:
  "eval_frame (\<lambda>x. x = ident) s (state_of (unlock_achievement ident s))"
  by (simp add: unlock_achievement_def unlock_loop_frame)

lemma state_of_cases:
  obtains v where "r = Returns v (state_of r)" | "r = Blocked (state_of r)" | "r = Undefined (state_of r)"
  by (cases r) simp_all

lemma check_loop_frame:
  "eval_frame (\<lambda>x. x = ident) s (state_of (check_loop idxs ident counter s))"
proof (induction idxs arbitrary: s)
  case Nil
  show ?case by simp
next
  case (Cons i rest)
  show ?case
  proof (cases "id_field (achievements s ! i) = ident \<and> counter s \<ge> target (achievements s ! i)
         \<and> unlocked (achievements s ! i) = 0")
    case False
    then show ?thesis using Cons.IH [of s] by auto
  next
    case True
    note u = unlock_achievement_frame [of ident s]
    show ?thesis
    proof (cases "unlock_achievement ident s")
      case (Returns v s')
      then have "eval_frame (\<lambda>x. x = ident) s s'" using u by simp
      then have "eval_frame (\<lambda>x. x = ident) s (state_of (check_loop rest ident counter s'))"
        using Cons.IH [of s'] by (rule eval_frame_trans)
      then show ?thesis using True Returns by simp
    next
      case (Blocked s')
      then show ?thesis using True u by simp
    next
      case (Undefined s')
      then show ?thesis using True u by simp
    qed
  qed
qed

lemma check_achievement_progress_frame:
  "eval_frame (\<lambda>x. x = ''boot_master'' \<or> x = ''wayland_pro'') s
     (state_of (check_achievement_progress s))"
proof -
  let ?P = "\<lambda>x. x = ''boot_master'' \<or> x = ''wayland_pro''"
  let ?s1 = "s\<lparr>boot_count := wrap_int (boot_count s + 1)\<rparr>"
  let ?r = "check_loop [0..<nat (achievement_count ?s1)] ''boot_master'' boot_count ?s1"
  have a: "eval_frame ?P s ?s1"
    by (simp add: eval_frame_def ach_frame_def same_queue_def)
  have b: "eval_frame ?P ?s1 (state_of ?r)"
    by (rule eval_frame_mono [OF check_loop_frame]) simp
  have c: "eval_frame ?P s2 (state_of (check_loop idxs ''wayland_pro'' wayland_events s2))" for s2 idxs
    by (rule eval_frame_mono [OF check_loop_frame]) simp
  have ab: "eval_frame ?P s (state_of ?r)"
    using a b by (rule eval_frame_trans)
  show ?thesis
  proof (cases ?r)
    case (Returns v s2)
    then show ?thesis
      using eval_frame_trans [OF ab [unfolded Returns state_of.simps] c]
      by (simp add: check_achievement_progress_def Let_def)
  next
    case (Blocked s2)
    then show ?thesis using ab by (simp add: check_achievement_progress_def Let_def)
  next
    case (Undefined s2)
    then show ?thesis using ab by (simp add: check_achievement_progress_def Let_def)
  qed
qed

lemma same_queue_ok: "same_queue s s' \<Longrightarrow> queue_ok s' = queue_ok s"
  by (simp add: same_queue_def queue_ok_def)

lemma same_queue_pending: "same_queue s s' \<Longrightarrow> pending s' = pending s"
  by (simp add: same_queue_def pending_def)

lemma monitor_tick_frame:
  "eval_frame (\<lambda>x. x = ''boot_master'' \<or> x = ''wayland_pro'') s
     (state_of (achievement_monitor_tick s))"
proof -
  let ?P = "\<lambda>x. x = ''boot_master'' \<or> x = ''wayland_pro''"
  let ?s1 = "s\<lparr>data_mutex := True\<rparr>"
  have a: "eval_frame ?P s ?s1"
    by (simp add: eval_frame_def ach_frame_def same_queue_def)
  have b: "eval_frame ?P s (state_of (check_achievement_progress ?s1))"
    using a check_achievement_progress_frame by (rule eval_frame_trans)
  have c: "eval_frame ?P s (pthread_mutex_unlock s2)" if "eval_frame ?P s s2" for s2
    using that by (simp add: eval_frame_def ach_frame_def same_queue_def pthread_mutex_unlock_def)
  show ?thesis
    using b c
    by (cases "check_achievement_progress ?s1")
      (simp_all add: achievement_monitor_tick_def pthread_mutex_lock_def)
qed

lemma kernel_hook_tick_eq:
  "kernel_hook_tick len s = (if len > 0 then achievement_monitor_tick s else Returns () s)"
  by (simp add: kernel_hook_tick_def achievement_monitor_tick_def)

lemma dispatch_queued_engine [simp]:
  "achievements (snd (dispatch_queued s)) = achievements s"
  "achievement_count (snd (dispatch_queued s)) = achievement_count s"
  "wayland_events (snd (dispatch_queued s)) = wayland_events s"
  "event_count (snd (dispatch_queued s)) = event_count s"
  "enabled (snd (dispatch_queued s)) = enabled s"
  "data_mutex (snd (dispatch_queued s)) = data_mutex s"
  by (simp_all add: dispatch_queued_def Let_def)

lemma generate_random_notification_engine [simp]:
  "achievements (generate_random_notification s) = achievements s"
  "achievement_count (generate_random_notification s) = achievement_count s"
  "wayland_events (generate_random_notification s) = wayland_events s"
  "event_count (generate_random_notification s) = event_count s"
  "enabled (generate_random_notification s) = enabled s"
  "data_mutex (generate_random_notification s) = data_mutex s"
  "notification_queue (generate_random_notification s) = notification_queue s"
  "notification_count (generate_random_notification s) = notification_count s"
  "notification_head (generate_random_notification s) = notification_head s"
  "notification_tail (generate_random_notification s) = notification_tail s"
  by (simp_all add: generate_random_notification_def rand_def)

lemma dispatcher_tick_cases:
  "notification_dispatcher_tick s =
     (if enabled s = 0 then Returns () s
      else if data_mutex s then Blocked s
      else Returns () (ambient_part (after_dispatch s)))"
  by (simp add: notification_dispatcher_tick_def pthread_mutex_lock_def after_dispatch_def
      ambient_part_def Let_def split: prod.splits)

lemma ambient_part_engine [simp]:
  "achievements (ambient_part s) = achievements s"
  "achievement_count (ambient_part s) = achievement_count s"
  "wayland_events (ambient_part s) = wayland_events s"
  "event_count (ambient_part s) = event_count s"
  "enabled (ambient_part s) = enabled s"
  "data_mutex (ambient_part s) = data_mutex s"
  "notification_queue (ambient_part s) = notification_queue s"
  "notification_count (ambient_part s) = notification_count s"
  "notification_head (ambient_part s) = notification_head s"
  "notification_tail (ambient_part s) = notification_tail s"
  by (simp_all add: ambient_part_def rand_def)

lemma queue_ok_mutex [simp]: "queue_ok (s\<lparr>data_mutex := m\<rparr>) = queue_ok s"
  by (simp add: queue_ok_def)

lemma pending_mutex [simp]: "pending (s\<lparr>data_mutex := m\<rparr>) = pending s"
  by (simp add: pending_def)

lemma dispatch_queued_ok: "queue_ok s \<Longrightarrow> queue_ok (snd (dispatch_queued s))"
  by (cases "notification_count s = 0") (simp_all add: dispatch_queued_empty dispatch_queued_pop)

lemma after_dispatch_ok: "queue_ok s \<Longrightarrow> queue_ok (after_dispatch s)"
  by (simp add: after_dispatch_def pthread_mutex_unlock_def dispatch_queued_ok)

lemma ambient_part_ok [simp]: "queue_ok (ambient_part s) = queue_ok s"
  by (simp add: queue_ok_def)

lemma dispatcher_tick_ok:
  "queue_ok s \<Longrightarrow> queue_ok (state_of (notification_dispatcher_tick s))"
  by (simp add: dispatcher_tick_cases after_dispatch_ok)

lemma dispatcher_tick_frame:
  "ach_frame P s (state_of (notification_dispatcher_tick s))"
  by (simp add: dispatcher_tick_cases ach_frame_def after_dispatch_def pthread_mutex_unlock_def)

lemma wayland_tick_cases:
  "wayland_event_tick s =
     (if enabled s = 0 then Returns () s
      else if data_mutex s then Blocked (after_listen s)
      else Returns ()
        (pthread_mutex_unlock (snd (queue_progress_notification ((after_listen s)\<lparr>data_mutex := True\<rparr>)))))"
  by (simp add: wayland_event_tick_def pthread_mutex_lock_def after_listen_def rand_def Let_def)

lemma queue_progress_notification_engine [simp]:
  "achievements (snd (queue_progress_notification s)) = achievements s"
  "achievement_count (snd (queue_progress_notification s)) = achievement_count s"
  "wayland_events (snd (queue_progress_notification s)) = wayland_events s"
  "event_count (snd (queue_progress_notification s)) = event_count s"
  "enabled (snd (queue_progress_notification s)) = enabled s"
  "data_mutex (snd (queue_progress_notification s)) = data_mutex s"
  by (simp_all add: queue_progress_notification_def time_now_def)

lemma queue_progress_notification_ok:
  "queue_ok s \<Longrightarrow> queue_ok (snd (queue_progress_notification s))"
  by (cases "event_count s mod 50 = 0 \<and> notification_count s < 99")
    (simp_all add: push_pending push_rejected)

lemma after_listen_ok [simp]: "queue_ok (after_listen s) = queue_ok s"
  by (simp add: queue_ok_def after_listen_def)

lemma wayland_tick_ok:
  "queue_ok s \<Longrightarrow> queue_ok (state_of (wayland_event_tick s))"
  by (simp add: wayland_tick_cases pthread_mutex_unlock_def queue_progress_notification_ok)

lemma wayland_tick_frame:
  "ach_frame P s (state_of (wayland_event_tick s))"
  by (simp add: wayland_tick_cases ach_frame_def pthread_mutex_unlock_def after_listen_def)

lemma load_config_engine [simp]:
  "achievements (snd (load_config s)) = achievements s"
  "achievement_count (snd (load_config s)) = achievement_count s"
  "wayland_events (snd (load_config s)) = wayland_events s"
  "event_count (snd (load_config s)) = event_count s"
  "data_mutex (snd (load_config s)) = data_mutex s"
  "notification_queue (snd (load_config s)) = notification_queue s"
  "notification_count (snd (load_config s)) = notification_count s"
  "notification_head (snd (load_config s)) = notification_head s"
  "notification_tail (snd (load_config s)) = notification_tail s"
  by (simp_all add: load_config_def printf_def eprintf_def split: option.splits)

lemma config_watch_tick_frame:
  "ach_frame P s (config_watch_tick len s)" "same_queue s (config_watch_tick len s)"
  by (simp_all add: config_watch_tick_def ach_frame_def same_queue_def)

lemma eval_frame_ach: "eval_frame P s s' \<Longrightarrow> ach_frame (\<lambda>x. True) s s'"
  unfolding eval_frame_def by (auto intro: ach_frame_mono)

lemma eval_frame_queue_ok: "eval_frame P s s' \<Longrightarrow> queue_ok s \<Longrightarrow> queue_ok s'"
  unfolding eval_frame_def using same_queue_ok [of s s'] by auto

lemma exec_frame: "ach_frame (\<lambda>x. True) s (state_of (exec e s))"
proof (cases e)
  case Monitor_tick
  then show ?thesis using monitor_tick_frame by (auto intro: eval_frame_ach)
next
  case (Kernel_hook_tick len)
  then show ?thesis using monitor_tick_frame
    by (auto simp: kernel_hook_tick_eq intro: eval_frame_ach)
next
  case (Unlock_call ident)
  then show ?thesis using unlock_achievement_frame by (auto intro: eval_frame_ach)
next
  case (Ini_written content)
  then show ?thesis by (simp add: ach_frame_def)
qed (simp_all add: dispatcher_tick_frame wayland_tick_frame config_watch_tick_frame)

lemma exec_queue_ok:
  assumes "queue_ok s"
  shows "queue_ok (state_of (exec e s))"
proof (cases e)
  case Monitor_tick
  then show ?thesis using eval_frame_queue_ok [OF monitor_tick_frame assms] by simp
next
  case (Kernel_hook_tick len)
  then show ?thesis using eval_frame_queue_ok [OF monitor_tick_frame assms] assms
    by (simp add: kernel_hook_tick_eq)
next
  case (Unlock_call ident)
  then show ?thesis using eval_frame_queue_ok [OF unlock_achievement_frame assms] by simp
next
  case (Config_tick len)
  then show ?thesis
    using same_queue_ok [OF config_watch_tick_frame(2) [of s len]] assms by simp
next
  case (Ini_written content)
  then show ?thesis using assms by (simp add: queue_ok_def)
qed (simp_all add: dispatcher_tick_ok wayland_tick_ok assms)

lemma trace_step:
  "trace (e # es) s = s # (if (\<exists>u. exec e s = Undefined u) then [state_of (exec e s)]
     else trace es (state_of (exec e s)))"
  by (cases "exec e s") simp_all

lemma trace_queue_ok:
  "queue_ok s \<Longrightarrow> s' \<in> set (trace es s) \<Longrightarrow> queue_ok s'"
proof (induction es arbitrary: s)
  case Nil
  then show ?case by simp
next
  case (Cons e es)
  have q: "queue_ok (state_of (exec e s))" using Cons.prems(1) by (rule exec_queue_ok)
  show ?case
    using Cons.prems Cons.IH [OF q] q unfolding trace_step
    by (auto split: if_splits)
qed

lemma trace_frame:
  "s' \<in> set (trace es s) \<Longrightarrow> ach_frame (\<lambda>x. True) s s'"
proof (induction es arbitrary: s)
  case Nil
  then show ?case by simp
next
  case (Cons e es)
  note f = exec_frame [of s e]
  show ?case
    using Cons.prems Cons.IH [of "state_of (exec e s)"] f unfolding trace_step
    by (auto split: if_splits intro: ach_frame_trans)
qed

lemma trace_sorted:
  "sorted_wrt (ach_frame (\<lambda>x. True)) (trace es s)"
proof (induction es arbitrary: s)
  case Nil
  show ?case by simp
next
  case (Cons e es)
  note f = exec_frame [of s e]
  have "ach_frame (\<lambda>x. True) s x" if "x \<in> set (trace es (state_of (exec e s)))" for x
    using f trace_frame [OF that] by (rule ach_frame_trans)
  then show ?case
    using Cons.IH [of "state_of (exec e s)"] f unfolding trace_step by simp
qed

lemma push_n_facts:
  assumes "queue_ok s" "event_count s mod 50 = 0" "notification_count s = 0"
  shows "queue_ok (push_n n s) \<and> event_count (push_n n s) = event_count s
    \<and> clock (push_n n s) = clock s
    \<and> time_calls (push_n n s) = time_calls s + upto99 n
    \<and> notification_count (push_n n s) = int (upto99 n)
    \<and> pending (push_n n s) = map (nth_item s) [0..<upto99 n]"
proof (induction n)
  case 0
  show ?case using assms by (simp add: pending_def upto99_def)
next
  case (Suc n)
  let ?t = "push_n n s"
  show ?case
  proof (cases "n < 99")
    case True
    then have c: "notification_count ?t < 99" using Suc by (simp add: upto99_def)
    have e: "event_count ?t mod 50 = 0" using Suc assms by simp
    have q: "queue_ok ?t" using Suc by simp
    have i: "progress_item ?t = nth_item s n"
      using Suc True by (simp add: progress_item_def nth_item_def upto99_def)
    have m: "upto99 (Suc n) = Suc n" "upto99 n = n" using True by (simp_all add: upto99_def)
    show ?thesis
      using push_pending [OF q e c] Suc
      by (simp add: push_accepted [OF e c] i m)
  next
    case False
    then have c: "\<not> (event_count ?t mod 50 = 0 \<and> notification_count ?t < 99)"
      using Suc by (simp add: upto99_def)
    have m: "upto99 (Suc n) = upto99 n" using False by (simp add: upto99_def)
    show ?thesis
      using Suc by (simp add: push_rejected [OF c] m)
  qed
qed

lemma pop_n_facts:
  "queue_ok s \<Longrightarrow>
     fst (pop_n n s) = map Some (take n (pending s)) @ replicate (n - length (pending s)) None
     \<and> pending (snd (pop_n n s)) = drop n (pending s)
     \<and> queue_ok (snd (pop_n n s))
     \<and> notification_count (snd (pop_n n s)) = int (length (pending s) - n)"
proof (induction n arbitrary: s)
  case 0
  then show ?case by (simp add: pending_def queue_ok_bounds)
next
  case (Suc n)
  show ?case
  proof (cases "notification_count s = 0")
    case True
    then have p: "pending s = []" by (simp add: pending_def)
    have d: "dispatch_queued s = (None, s)" using Suc.prems True by (rule dispatch_queued_empty)
    show ?thesis
      using Suc.IH [OF Suc.prems] by (simp add: d p)
  next
    case False
    note f = dispatch_queued_pop [OF Suc.prems False]
    have ne: "pending s \<noteq> []" using False queue_ok_bounds(3) [OF Suc.prems] by (simp add: pending_def)
    then obtain x xs where p: "pending s = x # xs" by (cases "pending s") auto
    show ?thesis
      using Suc.IH [OF f(3)] f p by simp
  qed
qed

lemma sample_start_queue: "queue_ok sample_start" "notification_count sample_start = 0"
  "event_count sample_start mod 50 = 0"
  by code_simp+

lemma trace_nonempty: "trace es s \<noteq> []"
  by (cases es) simp_all

lemma pending_length: "length (pending s) = nat (notification_count s)"
  by (simp add: pending_def)

lemma pending_unlock [simp]: "pending (pthread_mutex_unlock s) = pending s"
  by (simp add: pending_def pthread_mutex_unlock_def)

lemma pending_ambient [simp]: "pending (ambient_part s) = pending s"
  by (simp add: pending_def)

lemma pending_after_listen [simp]: "pending (after_listen s) = pending s"
  by (simp add: pending_def after_listen_def)

lemma progress_item_mutex [simp]: "progress_item (s\<lparr>data_mutex := m\<rparr>) = progress_item s"
  by (simp add: progress_item_def)

lemma push_pending_if:
  assumes "queue_ok s"
  shows "pending (snd (queue_progress_notification s)) =
    (if fst (queue_progress_notification s) then pending s @ [progress_item s] else pending s)"
proof (cases "event_count s mod 50 = 0 \<and> notification_count s < 99")
  case True
  then show ?thesis
    using push_pending(1) [OF assms] by (simp add: push_accepted)
next
  case False
  then show ?thesis by (simp add: push_rejected)
qed

lemma exec_pending:
  assumes "queue_ok s"
  shows "pending (state_of (exec e s)) = pending s
    \<or> (e = Dispatcher_tick \<and> pending (state_of (exec e s)) = tl (pending s))
    \<or> (e = Wayland_tick \<and> pending (state_of (exec e s)) = pending s @ [progress_item (after_listen s)])"
proof (cases e)
  case Monitor_tick
  have "same_queue s (state_of (achievement_monitor_tick s))"
    using monitor_tick_frame [of s] by (simp add: eval_frame_def)
  then show ?thesis using Monitor_tick by (simp add: same_queue_pending)
next
  case (Kernel_hook_tick len)
  have "same_queue s (state_of (achievement_monitor_tick s))"
    using monitor_tick_frame [of s] by (simp add: eval_frame_def)
  then show ?thesis using Kernel_hook_tick by (simp add: same_queue_pending kernel_hook_tick_eq)
next
  case Dispatcher_tick
  let ?s1 = "s\<lparr>data_mutex := True\<rparr>"
  have q: "queue_ok ?s1" using assms by simp
  show ?thesis
  proof (cases "notification_count s = 0")
    case True
    then have "dispatch_queued ?s1 = (None, ?s1)" using q by (intro dispatch_queued_empty) simp_all
    then show ?thesis using Dispatcher_tick
      by (simp add: dispatcher_tick_cases after_dispatch_def)
  next
    case False
    then have "pending (snd (dispatch_queued ?s1)) = tl (pending ?s1)"
      using q by (intro dispatch_queued_pop) simp_all
    then show ?thesis using Dispatcher_tick
      by (simp add: dispatcher_tick_cases after_dispatch_def)
  qed
next
  case Wayland_tick
  let ?s1 = "(after_listen s)\<lparr>data_mutex := True\<rparr>"
  have q: "queue_ok ?s1" using assms by simp
  show ?thesis
    using Wayland_tick push_pending_if [OF q]
    by (simp add: wayland_tick_cases)
next
  case (Config_tick len)
  then show ?thesis using config_watch_tick_frame(2) [of s len] by (simp add: same_queue_pending)
next
  case (Ini_written content)
  then show ?thesis by (simp add: pending_def)
next
  case (Unlock_call ident)
  have "same_queue s (state_of (unlock_achievement ident s))"
    using unlock_achievement_frame [of ident s] by (simp add: eval_frame_def)
  then show ?thesis using Unlock_call by (simp add: same_queue_pending)
qed

lemma push_n_unroll: "push_n (Suc n) s = push_n n (snd (queue_progress_notification s))"
  by (induction n) simp_all

lemma send_notification_failed:
  "\<not> connect_ok s (connect_calls s) \<Longrightarrow>
     send_notification msg ty prio s =
       (- 1, s\<lparr>connect_calls := Suc (connect_calls s),
                stderr_text := stderr_text s @ [''SweetEngine: Failed to connect to NotifEngine\<newline>'']\<rparr>)"
  by (simp add: send_notification_def connect_notif_engine_def eprintf_def)

lemma send_notification_sent:
  "connect_ok s (connect_calls s) \<Longrightarrow>
     send_notification msg ty prio s =
       (0, s\<lparr>connect_calls := Suc (connect_calls s), time_calls := Suc (time_calls s),
              socket_out := socket_out s
                 @ [snprintf 512 (notification_json ty msg prio (clock s (time_calls s)))]\<rparr>)"
  by (simp add: send_notification_def connect_notif_engine_def time_now_def)

lemma sample_start_running: "enabled sample_start = 1" "\<not> data_mutex sample_start"
  by code_simp+

lemma ambient_part_cases:
  "ambient_part s =
     (if int (rand_values s (rand_calls s)) mod 100 < 5
      then snd (send_notification
                 (random_msgs ! nat (int (rand_values s (Suc (rand_calls s))) mod 10)) ''random'' 2
                 (s\<lparr>rand_calls := Suc (Suc (rand_calls s))\<rparr>))
      else s\<lparr>rand_calls := Suc (rand_calls s)\<rparr>)"
  by (simp add: ambient_part_def rand_def generate_random_notification_def)

lemma after_dispatch_failed:
  assumes "queue_ok s" "notification_count s \<noteq> 0" "\<not> connect_ok s (connect_calls s)"
  shows "after_dispatch s =
    s\<lparr>data_mutex := False, connect_calls := Suc (connect_calls s),
      stderr_text := stderr_text s @ [connect_failure_text],
      notification_head := (notification_head s + 1) mod 100,
      notification_count := notification_count s - 1\<rparr>"
proof -
  let ?s1 = "s\<lparr>data_mutex := True\<rparr>"
  have q: "queue_ok ?s1" "notification_count ?s1 \<noteq> 0" using assms by simp_all
  have c: "\<not> connect_ok ?s1 (connect_calls ?s1)" using assms by simp
  show ?thesis
    unfolding after_dispatch_def dispatch_queued_nonempty [OF q]
    by (simp add: send_notification_failed [OF c] pthread_mutex_unlock_def connect_failure_text_def)
qed

lemma sample_queued_facts:
  "queue_ok sample_queued" "notification_count sample_queued \<noteq> 0" "enabled sample_queued \<noteq> 0"
  "\<not> data_mutex sample_queued" "\<not> connect_ok sample_queued (connect_calls sample_queued)"
  by code_simp+

lemma ach_frame_slot:
  "ach_frame P s s' \<Longrightarrow> i < length (achievements s) \<Longrightarrow>
     unlock_step P (achievements s ! i) (achievements s' ! i)"
  unfolding ach_frame_def by (auto dest: list_all2_nthD)

lemma ach_frame_length:
  "ach_frame P s s' \<Longrightarrow> length (achievements s') = length (achievements s)"
  unfolding ach_frame_def by (auto dest: list_all2_lengthD)

lemma trace_slot_sorted:
  assumes "i < length (achievements s0)"
  shows "sorted_wrt (slot_step i) (trace es s0)"
proof (rule sorted_wrt_mono_rel [OF _ trace_sorted])
  fix x y
  assume "x \<in> set (trace es s0)" and xy: "ach_frame (\<lambda>x. True) x y"
  then have "length (achievements x) = length (achievements s0)"
    using trace_frame ach_frame_length by blast
  then show "slot_step i x y"
    unfolding slot_step_def using xy assms by (intro ach_frame_slot) simp_all
qed

lemma slot_step_frozen:
  "slot_step i s s' \<Longrightarrow> unlocked (achievements s ! i) \<noteq> 0
     \<Longrightarrow> achievements s' ! i = achievements s ! i"
  by (auto simp: slot_step_def unlock_step_def)

lemma frozen_no_transitions:
  "sorted_wrt (slot_step i) (s # rest) \<Longrightarrow> unlocked (achievements s ! i) \<noteq> 0
     \<Longrightarrow> transitions i (s # rest) = 0"
proof (induction rest arbitrary: s)
  case Nil
  then show ?case by simp
next
  case (Cons s' rest)
  have "achievements s' ! i = achievements s ! i"
    using Cons.prems by (intro slot_step_frozen) simp_all
  then have u: "unlocked (achievements s' ! i) \<noteq> 0" using Cons.prems(2) by simp
  have "sorted_wrt (slot_step i) (s' # rest)" using Cons.prems(1) by simp
  then have "transitions i (s' # rest) = 0" using u by (rule Cons.IH)
  then show ?case using Cons.prems(2) by (simp add: unlock_transition_def)
qed

lemma transitions_le_one:
  "sorted_wrt (slot_step i) tr \<Longrightarrow> transitions i tr \<le> 1"
proof (induction i tr rule: transitions.induct)
  case (3 i s s' rest)
  have srt: "sorted_wrt (slot_step i) (s' # rest)" using "3.prems" by simp
  show ?case
  proof (cases "unlock_transition i s s'")
    case True
    then have "unlocked (achievements s' ! i) \<noteq> 0" by (simp add: unlock_transition_def)
    then have "transitions i (s' # rest) = 0" using srt by (intro frozen_no_transitions)
    then show ?thesis using True by simp
  next
    case False
    then show ?thesis using "3.IH" [OF srt] by simp
  qed
qed simp_all

lemma unlock_loop_no_match:
  "(\<forall>k \<in> set idxs. id_field (achievements s ! k) = ident \<longrightarrow> unlocked (achievements s ! k) \<noteq> 0)
     \<Longrightarrow> unlock_loop idxs ident s = Returns () s"
  by (induction idxs) auto

lemma sample_start_engine: "engine_ok sample_start" "achievement_count sample_start = 2"
  by code_simp+

lemma unlock_step_same_keys:
  "unlock_step P a a' \<Longrightarrow> id_field a' = id_field a \<and> target a' = target a"
  unfolding unlock_step_def
proof (elim disjE conjE)
  assume e: "a' = a\<lparr>unlocked := 1, unlock_time := unlock_time a'\<rparr>"
  have "id_field a' = id_field a" by (subst e) simp
  moreover have "target a' = target a" by (subst e) simp
  ultimately show ?thesis by simp
qed simp

lemma engine_ok_frame: "ach_frame P s s' \<Longrightarrow> engine_ok s \<Longrightarrow> engine_ok s'"
  unfolding engine_ok_def using ach_frame_length [of P s s'] by (simp add: ach_frame_def)

lemma wayland_idle_frame:
  assumes "ach_frame P s s'" "engine_ok s" "wayland_idle s"
  shows "wayland_idle s'"
proof -
  have c: "achievement_count s' = achievement_count s" "wayland_events s' = wayland_events s"
    using assms(1) by (simp_all add: ach_frame_def)
  have "0 < target (achievements s' ! k)"
    if "k < nat (achievement_count s)" "id_field (achievements s' ! k) = ''wayland_pro''" for k
  proof -
    have "k < length (achievements s)" using that(1) assms(2) unfolding engine_ok_def by linarith
    then have "unlock_step P (achievements s ! k) (achievements s' ! k)"
      using assms(1) by (intro ach_frame_slot)
    then have "id_field (achievements s' ! k) = id_field (achievements s ! k)"
      "target (achievements s' ! k) = target (achievements s ! k)"
      using unlock_step_same_keys by blast+
    then show ?thesis using that assms(3) unfolding wayland_idle_def by simp
  qed
  then show ?thesis using assms(3) unfolding wayland_idle_def by (simp add: c)
qed

lemma wayland_loop_idle:
  "wayland_idle s \<Longrightarrow> \<forall>k \<in> set idxs. k < nat (achievement_count s)
     \<Longrightarrow> check_loop idxs ''wayland_pro'' wayland_events s = Returns () s"
proof (induction idxs)
  case Nil
  then show ?case by simp
next
  case (Cons k rest)
  have "\<not> (id_field (achievements s ! k) = ''wayland_pro''
      \<and> wayland_events s \<ge> target (achievements s ! k))"
    using Cons.prems unfolding wayland_idle_def by auto
  then show ?case using Cons by auto
qed

lemma check_progress_idle:
  assumes "engine_ok s" "wayland_idle s"
  shows "ach_frame (\<lambda>x. x = ''boot_master'') s (state_of (check_achievement_progress s))"
proof -
  let ?P = "\<lambda>x. x = ''boot_master''"
  let ?s1 = "s\<lparr>boot_count := wrap_int (boot_count s + 1)\<rparr>"
  let ?r = "check_loop [0..<nat (achievement_count ?s1)] ''boot_master'' boot_count ?s1"
  have a: "ach_frame ?P s ?s1" by (simp add: ach_frame_def)
  have b: "ach_frame ?P ?s1 (state_of ?r)"
    using check_loop_frame [of "''boot_master''" ?s1] by (simp add: eval_frame_def)
  have ab: "ach_frame ?P s (state_of ?r)" using a b by (rule ach_frame_trans)
  show ?thesis
  proof (cases ?r)
    case (Returns v s2)
    then have f: "ach_frame ?P s s2" using ab by simp
    have "wayland_idle s2" using f assms by (rule wayland_idle_frame)
    then have "check_loop [0..<nat (achievement_count s2)] ''wayland_pro'' wayland_events s2
        = Returns () s2"
      by (rule wayland_loop_idle) simp
    then show ?thesis using Returns f by (simp add: check_achievement_progress_def Let_def)
  next
    case (Blocked s2)
    then show ?thesis using ab by (simp add: check_achievement_progress_def Let_def)
  next
    case (Undefined s2)
    then show ?thesis using ab by (simp add: check_achievement_progress_def Let_def)
  qed
qed

lemma engine_ok_mutex [simp]: "engine_ok (s\<lparr>data_mutex := m\<rparr>) = engine_ok s"
  by (simp add: engine_ok_def)

lemma wayland_idle_mutex [simp]: "wayland_idle (s\<lparr>data_mutex := m\<rparr>) = wayland_idle s"
  by (simp add: wayland_idle_def)

lemma monitor_tick_idle:
  assumes "engine_ok s" "wayland_idle s"
  shows "ach_frame (\<lambda>x. x = ''boot_master'') s (state_of (achievement_monitor_tick s))"
proof -
  let ?P = "\<lambda>x. x = ''boot_master''"
  let ?s1 = "s\<lparr>data_mutex := True\<rparr>"
  have a: "ach_frame ?P s ?s1" by (simp add: ach_frame_def)
  have "ach_frame ?P ?s1 (state_of (check_achievement_progress ?s1))"
    using assms by (intro check_progress_idle) simp_all
  then have b: "ach_frame ?P s (state_of (check_achievement_progress ?s1))"
    using a by (rule ach_frame_trans [rotated])
  have c: "ach_frame ?P s (pthread_mutex_unlock s2)" if "ach_frame ?P s s2" for s2
    using that by (simp add: ach_frame_def pthread_mutex_unlock_def)
  show ?thesis
    using b c
    by (cases "check_achievement_progress ?s1")
      (simp_all add: achievement_monitor_tick_def pthread_mutex_lock_def)
qed

lemma exec_idle:
  assumes "engine_ok s" "wayland_idle s" "engine_event e"
  shows "ach_frame (\<lambda>x. x = ''boot_master'') s (state_of (exec e s))"
proof (cases e)
  case Monitor_tick
  then show ?thesis using monitor_tick_idle [OF assms(1,2)] by simp
next
  case (Kernel_hook_tick len)
  then show ?thesis using monitor_tick_idle [OF assms(1,2)] by (simp add: kernel_hook_tick_eq)
next
  case (Unlock_call ident)
  then show ?thesis using assms(3) by simp
next
  case (Ini_written content)
  then show ?thesis by (simp add: ach_frame_def)
qed (simp_all add: dispatcher_tick_frame wayland_tick_frame config_watch_tick_frame)

lemma trace_idle:
  "engine_ok s \<Longrightarrow> wayland_idle s \<Longrightarrow> list_all engine_event es \<Longrightarrow> s' \<in> set (trace es s)
     \<Longrightarrow> ach_frame (\<lambda>x. x = ''boot_master'') s s'"
proof (induction es arbitrary: s)
  case Nil
  then show ?case by simp
next
  case (Cons e es)
  let ?t = "state_of (exec e s)"
  have f: "ach_frame (\<lambda>x. x = ''boot_master'') s ?t"
    using Cons.prems by (intro exec_idle) simp_all
  have ok: "engine_ok ?t" "wayland_idle ?t"
    using f Cons.prems(1,2) engine_ok_frame wayland_idle_frame by blast+
  have ih: "ach_frame (\<lambda>x. x = ''boot_master'') ?t s'" if "s' \<in> set (trace es ?t)"
    using ok Cons.prems(3) that by (intro Cons.IH) simp_all
  show ?case
    using Cons.prems(4) f ih unfolding trace_step
    by (auto split: if_splits intro: ach_frame_trans)
qed

lemma sample_catalog:
  "wayland_events sample_start = 0" "id_field (achievements sample_start ! 1) = ''wayland_pro''"
  "target (achievements sample_start ! 1) = 500" "unlocked (achievements sample_start ! 1) = 0"
  "id_field (achievements sample_start ! 0) = ''boot_master''"
  "target (achievements sample_start ! 0) = 10" "unlocked (achievements sample_start ! 0) = 0"
  by code_simp+

lemma then_do_return_assoc:
  "then_do (then_do m (\<lambda>_ s. Returns () s)) f = then_do m (\<lambda>_ s. f () s)"
  by (cases m) simp_all

lemma unlock_loop_first:
  assumes "\<forall>j \<in> set pre. \<not> (id_field (achievements s ! j) = ident \<and> unlocked (achievements s ! j) = 0)"
    and "id_field (achievements s ! i) = ident" "unlocked (achievements s ! i) = 0"
  shows "unlock_loop (pre @ i # post) ident s = unlock_at i s"
  using assms by (induction pre) auto

lemma check_loop_skip:
  assumes "\<forall>j \<in> set pre. \<not> (id_field (achievements s ! j) = ident
      \<and> counter s \<ge> target (achievements s ! j) \<and> unlocked (achievements s ! j) = 0)"
  shows "check_loop (pre @ rest) ident counter s = check_loop rest ident counter s"
  using assms by (induction pre) auto

lemma upt_split3: "lo \<le> i \<Longrightarrow> i < n \<Longrightarrow> [lo..<n] = [lo..<i] @ i # [Suc i..<n]"
  by (metis le_add_diff_inverse less_imp_le_nat upt_add_eq_append upt_conv_Cons)

lemma unlock_at_eq:
  assumes "i < length (achievements s)"
  shows "unlock_at i s =
    then_do (save_engine_data
       (log_engine_event ''Achievement unlocked''
         (snd (send_notification
            (unlock_message ((achievements s ! i)\<lparr>unlocked := 1, unlock_time := clock s (time_calls s)\<rparr>))
            ''achievement'' 5
            (s\<lparr>time_calls := Suc (time_calls s),
               achievements := (achievements s)
                  [i := (achievements s ! i)\<lparr>unlocked := 1, unlock_time := clock s (time_calls s)\<rparr>]\<rparr>)))))
      (\<lambda>_ s6. Returns () s6)"
  using assms by (simp add: unlock_at_def time_now_def Let_def)

lemma load_engine_data_no_store:
  "data_file s = None \<or> \<not> data_readable s \<or> data_file s = Some []
     \<Longrightarrow> load_engine_data s = (- 1, s)"
  by (auto simp: load_engine_data_def)

lemma strtok_lines_Nil [simp]: "strtok_lines [] = []"
  by (simp add: strtok_lines.simps)

lemma strtok_lines_NL [simp]: "strtok_lines (NL # x) = strtok_lines x"
  by (subst strtok_lines.simps, subst (2) strtok_lines.simps) simp

lemma strtok_lines_line:
  assumes "l \<noteq> []" "NL \<notin> set l"
  shows "strtok_lines (l @ NL # x) = l # strtok_lines x"
proof -
  obtain c cs where l: "l = c # cs" using assms(1) by (cases l) auto
  have c: "c \<noteq> NL" "NL \<notin> set cs" using assms(2) l by auto
  have t: "takeWhile (\<lambda>x. x \<noteq> NL) (cs @ NL # x) = cs"
    using c(2) by (induction cs) auto
  have d: "dropWhile (\<lambda>x. x \<noteq> NL) (cs @ NL # x) = NL # x"
    using c(2) by (induction cs) auto
  show ?thesis
    unfolding l by (subst strtok_lines.simps) (simp add: c t d)
qed






lemma load_loop_cap:
  "achievement_count s \<le> MAX_ACHIEVEMENTS
     \<Longrightarrow> achievement_count (load_loop ls s) \<le> MAX_ACHIEVEMENTS"
  by (induction ls arbitrary: s) auto


lemma load_engine_data_eq:
  assumes "data_readable s" "data_file s = Some bytes" "bytes \<noteq> []"
  shows "load_engine_data s =
    (0, seed_defaults (load_loop (strtok_lines (cstr (take (DATA_BUFFER_SIZE - 1) bytes)))
          (s\<lparr>achievement_count := 0\<rparr>)))"
proof -
  have "take (min (length bytes) (DATA_BUFFER_SIZE - 1)) bytes = take (DATA_BUFFER_SIZE - 1) bytes"
    by (simp add: min_def)
  then show ?thesis
    using assms by (simp add: load_engine_data_def Let_def DATA_BUFFER_SIZE_def)
qed

lemma load_loop_entries:
  "load_loop ls u =
     u\<lparr>achievements := fst (load_entries ls (achievements u, achievement_count u)),
       achievement_count := snd (load_entries ls (achievements u, achievement_count u))\<rparr>"
  by (induction ls arbitrary: u) simp_all





lemma digit_char_code: "d < 10 \<Longrightarrow> (of_char (digit_char d) :: nat) = 48 + d"
  by (simp add: digit_char_def)

lemma digit_char_neq:
  assumes "d < 10" "(of_char c :: nat) < 48 \<or> 57 < (of_char c :: nat)"
  shows "digit_char d \<noteq> c"
proof
  assume "digit_char d = c"
  then have "(of_char c :: nat) = 48 + d" using digit_char_code [OF assms(1)] by simp
  then show False using assms by linarith
qed

lemma digit_char_facts:
  assumes "d < 10"
  shows "isdigit (digit_char d)" "digit_val (digit_char d) = int d" "\<not> isspace (digit_char d)"
    "digit_char d \<noteq> CHR ''-''" "digit_char d \<noteq> CHR ''+''" "digit_char d \<noteq> BAR"
    "digit_char d \<noteq> NL" "digit_char d \<noteq> NUL"
proof -
  note o = digit_char_code [OF assms]
  show "isdigit (digit_char d)" using assms by (simp add: isdigit_def o)
  show "digit_val (digit_char d) = int d" by (simp add: digit_val_def o)
  have "digit_char d \<noteq> CHR '' ''" using assms by (rule digit_char_neq) simp
  then show "\<not> isspace (digit_char d)" by (simp add: isspace_def o)
  show "digit_char d \<noteq> CHR ''-''" using assms by (rule digit_char_neq) simp
  show "digit_char d \<noteq> CHR ''+''" using assms by (rule digit_char_neq) simp
  show "digit_char d \<noteq> NL" using assms by (rule digit_char_neq) simp
  show "digit_char d \<noteq> NUL" using assms by (rule digit_char_neq) simp
  show "digit_char d \<noteq> BAR" using assms by (rule digit_char_neq) simp
qed

lemma show_nat_digits: "c \<in> set (show_nat n) \<Longrightarrow> \<exists>d < 10. c = digit_char d"
proof (induction n rule: show_nat.induct)
  case (1 n)
  show ?case
  proof (cases "n < 10")
    case True
    then show ?thesis using "1.prems" by (subst (asm) show_nat.simps) auto
  next
    case False
    have "c \<in> set (show_nat (n div 10)) \<or> c = digit_char (n mod 10)"
      using "1.prems" False by (subst (asm) show_nat.simps) auto
    then show ?thesis
    proof
      assume "c \<in> set (show_nat (n div 10))"
      then show ?thesis using False by (intro "1.IH") simp_all
    next
      assume "c = digit_char (n mod 10)"
      moreover have "n mod 10 < 10" by simp
      ultimately show ?thesis by blast
    qed
  qed
qed

lemma show_nat_nonempty: "show_nat n \<noteq> []"
  by (subst show_nat.simps) simp

lemma show_nat_hd: "\<exists>d < 10. hd (show_nat n) = digit_char d"
  using show_nat_digits [of "hd (show_nat n)" n] show_nat_nonempty [of n] by simp

lemma show_nat_value:
  "foldl (\<lambda>a c. 10 * a + digit_val c) 0 (show_nat n) = int n"
proof (induction n rule: show_nat.induct)
  case (1 n)
  show ?case
  proof (cases "n < 10")
    case True
    then show ?thesis by (subst show_nat.simps) (simp add: digit_char_facts)
  next
    case False
    have m: "n mod 10 < 10" by simp
    have "foldl (\<lambda>a c. 10 * a + digit_val c) 0 (show_nat n)
        = 10 * int (n div 10) + int (n mod 10)"
      using False "1.IH" by (subst show_nat.simps) (simp add: digit_char_facts(2) [OF m])
    also have "\<dots> = int n" by (simp add: zdiv_int zmod_int)
    finally show ?thesis .
  qed
qed

lemma takeWhile_prefix_all:
  assumes "\<forall>c \<in> set ds. P c" "rest = [] \<or> \<not> P (hd rest)"
  shows "takeWhile P (ds @ rest) = ds"
proof -
  have "takeWhile P rest = []" using assms(2) by (cases rest) auto
  then show ?thesis using assms(1) by (simp add: takeWhile_append2)
qed

lemma show_nat_all_digits: "\<forall>c \<in> set (show_nat n). isdigit c"
  using show_nat_digits digit_char_facts(1) by blast

lemma isdigit_plain:
  assumes "isdigit c"
  shows "\<not> isspace c" "c \<noteq> CHR ''-''" "c \<noteq> CHR ''+''"
proof -
  have o: "48 \<le> (of_char c :: nat)" using assms by (simp add: isdigit_def)
  have "c \<noteq> CHR '' ''" using o by auto
  then show "\<not> isspace c" using o by (simp add: isspace_def)
  show "c \<noteq> CHR ''-''" using o by auto
  show "c \<noteq> CHR ''+''" using o by auto
qed

lemma scan_number_raw:
  assumes "ds \<noteq> []" "\<forall>c \<in> set ds. isdigit c" "rest = [] \<or> \<not> isdigit (hd rest)"
  shows "scan_number (ds @ rest) = Some (foldl (\<lambda>a c. 10 * a + digit_val c) 0 ds, rest)"
    and "scan_number (CHR ''-'' # ds @ rest)
           = Some (- foldl (\<lambda>a c. 10 * a + digit_val c) 0 ds, rest)"
proof -
  obtain c cs where s: "ds = c # cs" using assms(1) by (cases ds) auto
  have c: "\<not> isspace c" "c \<noteq> CHR ''-''" "c \<noteq> CHR ''+''"
    using isdigit_plain [of c] assms(2) s by simp_all
  have dw: "dropWhile isspace (ds @ rest) = ds @ rest"
    using c(1) by (simp add: s)
  have h: "hd (ds @ rest) = c" "ds @ rest \<noteq> []"
    by (simp_all add: s)
  have tw: "takeWhile isdigit (ds @ rest) = ds"
    using assms(2,3) by (rule takeWhile_prefix_all)
  show "scan_number (ds @ rest) = Some (foldl (\<lambda>a c. 10 * a + digit_val c) 0 ds, rest)"
    unfolding scan_number_def Let_def dw
    using c assms(1) by (simp add: h tw)
  have sp: "\<not> isspace CHR ''-''" by (simp add: isspace_def)
  have dw2: "dropWhile isspace (CHR ''-'' # ds @ rest) = CHR ''-'' # ds @ rest"
    using sp by simp
  have h2: "hd (CHR ''-'' # ds @ rest) = CHR ''-''" "CHR ''-'' # ds @ rest \<noteq> []"
    "tl (CHR ''-'' # ds @ rest) = ds @ rest"
    by simp_all
  show "scan_number (CHR ''-'' # ds @ rest)
           = Some (- foldl (\<lambda>a c. 10 * a + digit_val c) 0 ds, rest)"
    unfolding scan_number_def Let_def dw2
    using assms(1) by (simp add: tw)
qed

lemma scan_number_show:
  assumes "rest = [] \<or> \<not> isdigit (hd rest)"
  shows "scan_number (show_int v @ rest) = Some (v, rest)"
proof (cases "v < 0")
  case False
  then show ?thesis
    using scan_number_raw(1) [OF show_nat_nonempty show_nat_all_digits assms, of "nat v"]
    by (simp add: show_int_def show_nat_value)
next
  case True
  then show ?thesis
    using scan_number_raw(2) [OF show_nat_nonempty show_nat_all_digits assms, of "nat (- v)"]
    by (simp add: show_int_def show_nat_value)
qed

lemma to_long_id: "long_ok v \<Longrightarrow> to_long v = v"
  by (simp add: long_ok_def to_long_def)

lemma to_int_id: "int_ok v \<Longrightarrow> to_int v = v"
proof -
  assume a: "int_ok v"
  then have l: "to_long v = v" by (simp add: int_ok_def to_long_def)
  have "0 \<le> v + 2 ^ 31" "v + 2 ^ 31 < 2 ^ 32" using a by (simp_all add: int_ok_def)
  then have "(v + 2 ^ 31) mod 2 ^ 32 = v + 2 ^ 31" by (rule mod_pos_pos_trivial)
  then show ?thesis by (simp add: to_int_def l)
qed

lemma bar_not_digit: "\<not> isdigit BAR"
  by (simp add: isdigit_def)

lemma scan_d_show:
  "int_ok v \<Longrightarrow> scan_d (show_int v @ BAR # rest) = Some (v, BAR # rest)"
  by (simp add: scan_d_def scan_number_show bar_not_digit to_int_id)

lemma scan_ld_show:
  "long_ok v \<Longrightarrow> scan_ld (show_int v) = Some (v, [])"
  using scan_number_show [of "[]" v] by (simp add: scan_ld_def to_long_id)

lemma scan_set_text:
  assumes "text_ok n t"
  shows "scan_set n (t @ BAR # rest) = Some (t, BAR # rest)"
proof -
  have "takeWhile (\<lambda>c. c \<noteq> BAR) (t @ BAR # rest) = t"
    using assms by (intro takeWhile_prefix_all) (auto simp: text_ok_def)
  then show ?thesis using assms by (simp add: scan_set_def text_ok_def)
qed

lemma achievement_line_body: "achievement_line a = ''ACH:'' @ record_body a @ [NL]"
  by (simp add: achievement_line_def record_body_def)

lemma sscanf_record_body:
  assumes "storable a"
  shows "sscanf_achievement (record_body a) old = a"
proof -
  note s = assms [unfolded storable_def]
  have "sscanf_achievement (record_body a) old
      = old\<lparr>id_field := id_field a, name := name a, description := description a,
            progress := progress a, target := target a, unlocked := unlocked a,
            unlock_time := unlock_time a\<rparr>"
    using s
    by (simp add: sscanf_achievement_def achievement_format_def record_body_def scan_step_def
        store_text_def store_number_def match_bar_def scan_set_text scan_d_show scan_ld_show)
  also have "\<dots> = a"
    by (cases a, cases old) simp
  finally show ?thesis .
qed

lemma show_int_chars:
  assumes "c \<in> set (show_int v)"
  shows "c \<noteq> NL" "c \<noteq> NUL"
proof -
  have "c = CHR ''-'' \<or> (\<exists>d < 10. c = digit_char d)"
    using assms show_nat_digits by (auto simp: show_int_def split: if_splits)
  then consider "c = CHR ''-''" | d where "d < 10" "c = digit_char d" by blast
  then have "c \<noteq> NL \<and> c \<noteq> NUL"
  proof cases
    case 1
    then show ?thesis by simp
  next
    case 2
    then show ?thesis using digit_char_facts(7,8) [OF 2(1)] by simp
  qed
  then show "c \<noteq> NL" "c \<noteq> NUL" by simp_all
qed

lemma record_body_chars:
  assumes "storable a"
  shows "NL \<notin> set (record_body a)" "NUL \<notin> set (record_body a)"
  using assms show_int_chars unfolding storable_def text_ok_def record_body_def by auto

lemma record_line_chars:
  assumes "storable a"
  shows "NL \<notin> set (record_line a)" "NUL \<notin> set (record_line a)" "record_line a \<noteq> []"
    "take 4 (record_line a) = ''ACH:''" "drop 4 (record_line a) = record_body a"
  using record_body_chars [OF assms] by (simp_all add: record_line_def)

lemma lines_tokens:
  "\<forall>a \<in> set cat. storable a
     \<Longrightarrow> strtok_lines (concat (map achievement_line cat)) = map record_line cat"
proof (induction cat)
  case Nil
  show ?case by simp
next
  case (Cons a cat)
  have l: "achievement_line a = record_line a @ [NL]"
    by (simp add: achievement_line_body record_line_def)
  have s: "storable a" using Cons.prems by simp
  have "strtok_lines (record_line a @ NL # concat (map achievement_line cat))
      = record_line a # strtok_lines (concat (map achievement_line cat))"
    using record_line_chars(3,1) [OF s] by (rule strtok_lines_line)
  then show ?case using Cons by (simp add: l)
qed

lemma lines_no_nul:
  "\<forall>a \<in> set cat. storable a \<Longrightarrow> NUL \<notin> set (concat (map achievement_line cat))"
proof (induction cat)
  case Nil
  show ?case by simp
next
  case (Cons a cat)
  have "NUL \<notin> set (achievement_line a)"
    using record_body_chars(2) [of a] Cons.prems by (simp add: achievement_line_body)
  then show ?case using Cons by simp
qed

lemma cstr_id: "NUL \<notin> set t \<Longrightarrow> cstr t = t"
  by (auto simp: cstr_def takeWhile_eq_all_conv)

lemma store_tokens:
  assumes "\<forall>a \<in> set cat. storable a"
  shows "strtok_lines (cstr (store_text_of cat)) = store_header # map record_line cat"
proof -
  have "NUL \<notin> set (store_text_of cat)"
    using lines_no_nul [OF assms] by (simp add: store_text_of_def store_header_def)
  then have c: "cstr (store_text_of cat) = store_text_of cat" by (rule cstr_id)
  have "strtok_lines (store_header @ NL # concat (map achievement_line cat))
      = store_header # strtok_lines (concat (map achievement_line cat))"
    by (rule strtok_lines_line) (simp_all add: store_header_def)
  then show ?thesis
    unfolding c using lines_tokens [OF assms] by (simp add: store_text_of_def)
qed

lemma load_entries_records:
  "\<forall>a \<in> set cat. storable a \<Longrightarrow> k + length cat \<le> length arr \<Longrightarrow> k + length cat \<le> 50
     \<Longrightarrow> load_entries (map record_line cat) (arr, int k)
         = (take k arr @ cat @ drop (k + length cat) arr, int (k + length cat))"
proof (induction cat arbitrary: arr k)
  case Nil
  then show ?case by simp
next
  case (Cons a cat)
  have s: "storable a" using Cons.prems(1) by simp
  have k: "k < length arr" "int k < MAX_ACHIEVEMENTS"
    using Cons.prems(2,3) by (simp_all add: MAX_ACHIEVEMENTS_def)
  let ?arr = "arr[k := a]"
  have ih: "load_entries (map record_line cat) (?arr, int (Suc k))
      = (take (Suc k) ?arr @ cat @ drop (Suc k + length cat) ?arr, int (Suc k + length cat))"
    using Cons.prems by (intro Cons.IH) simp_all
  have t: "take (Suc k) ?arr = take k arr @ [a]"
    using k(1) by (simp add: take_Suc_conv_app_nth)
  have d: "drop (Suc k + length cat) ?arr = drop (Suc k + length cat) arr"
    by (rule drop_update_cancel) simp
  have step: "load_entries (map record_line (a # cat)) (arr, int k)
      = load_entries (map record_line cat) (?arr, int (Suc k))"
    using k(2) by (simp add: record_line_chars [OF s] sscanf_record_body [OF s] add.commute)
  show ?case
    unfolding step ih t d by simp
qed

lemma save_lines_fits:
  "w + length (concat (map achievement_line cat)) < DATA_BUFFER_SIZE
     \<Longrightarrow> save_lines cat (buf, w)
         = Some (buf @ concat (map achievement_line cat), w + length (concat (map achievement_line cat)))"
proof (induction cat arbitrary: buf w)
  case Nil
  show ?case by simp
next
  case (Cons a cat)
  have f: "w + length (achievement_line a) < DATA_BUFFER_SIZE"
    using Cons.prems by simp
  then have s: "snprintf_at (buf, w) (achievement_line a)
      = Some (buf @ achievement_line a, w + length (achievement_line a))"
    by (simp add: snprintf_at_def)
  have "save_lines cat (buf @ achievement_line a, w + length (achievement_line a))
      = Some ((buf @ achievement_line a) @ concat (map achievement_line cat),
              (w + length (achievement_line a)) + length (concat (map achievement_line cat)))"
    using Cons.prems by (intro Cons.IH) simp
  then show ?case by (simp add: s add.assoc)
qed

lemma save_engine_data_fits:
  assumes "\<not> data_mutex s" "data_writable s"
    and "length (store_text_of (take (nat (achievement_count s)) (achievements s))) < DATA_BUFFER_SIZE"
  shows "save_engine_data s
    = Returns 0 (s\<lparr>data_file := Some (store_text_of (take (nat (achievement_count s)) (achievements s))),
          data_mutex := False\<rparr>)"
proof -
  let ?cat = "take (nat (achievement_count s)) (achievements s)"
  let ?h = "''SWEETENGINE_DATA_v1\<newline>''"
  have h: "snprintf_at ([], 0) ?h = Some (?h, 20)"
    by (simp add: snprintf_at_def DATA_BUFFER_SIZE_def)
  have "20 + length (concat (map achievement_line ?cat)) < DATA_BUFFER_SIZE"
    using assms(3) by (simp add: store_text_of_def store_header_def)
  then have l: "save_lines ?cat (?h, 20)
      = Some (?h @ concat (map achievement_line ?cat), 20 + length (concat (map achievement_line ?cat)))"
    by (rule save_lines_fits)
  have t: "?h @ concat (map achievement_line ?cat) = store_text_of ?cat"
    by (simp add: store_text_of_def store_header_def)
  have n: "20 + length (concat (map achievement_line ?cat)) = length (store_text_of ?cat)"
    by (simp add: store_text_of_def store_header_def)
  have l': "save_lines ?cat (?h, 20) = Some (store_text_of ?cat, length (store_text_of ?cat))"
    using l by (simp only: t n)
  show ?thesis
    using assms
    by (simp add: save_engine_data_def pthread_mutex_lock_def pthread_mutex_unlock_def Let_def h l'
        less_imp_le_nat)
qed

lemma sample_storable:
  "0 < achievement_count sample_start"
  "list_all storable (take (nat (achievement_count sample_start)) (achievements sample_start))"
  "length (store_text_of (take (nat (achievement_count sample_start)) (achievements sample_start)))
     < DATA_BUFFER_SIZE"
  "data_writable sample_start"
  "data_readable (sample_restart sample_start)"
  "length (achievements (sample_restart sample_start)) = nat MAX_ACHIEVEMENTS"
  by code_simp+

lemma sample_reloads:
  "achievement_count (program_start sample_world) = 0
   \<and> data_file (state_of (save_engine_data (program_start sample_world)))
        = Some ''SWEETENGINE_DATA_v1\<newline>''
   \<and> achievement_count (snd (load_engine_data (sample_restart (program_start sample_world)))) = 2
   \<and> data_file (state_of (save_engine_data sample_blank_name))
        = Some ''SWEETENGINE_DATA_v1\<newline>ACH:a||d|1|2|0|0\<newline>''
   \<and> description (achievements sample_blank_name ! 0) = ''d''
   \<and> target (achievements sample_blank_name ! 0) = 2
   \<and> achievement_count (snd (load_engine_data (sample_restart sample_blank_name))) = 1
   \<and> description (achievements (snd (load_engine_data (sample_restart sample_blank_name))) ! 0) = []
   \<and> target (achievements (snd (load_engine_data (sample_restart sample_blank_name))) ! 0) = 0"
  by code_simp

lemma save_lines_written:
  "save_lines cat bw = Some bw'
     \<Longrightarrow> snd bw' = snd bw + length (concat (map achievement_line cat))"
proof (induction cat arbitrary: bw)
  case Nil
  then show ?case by simp
next
  case (Cons a cat)
  obtain b where b: "snprintf_at bw (achievement_line a) = Some b" "save_lines cat b = Some bw'"
    using Cons.prems by (auto split: option.splits)
  have "snd b = snd bw + length (achievement_line a)"
    using b(1) by (auto simp: snprintf_at_def split: if_splits)
  then show ?case using Cons.IH [OF b(2)] by simp
qed

lemma save_engine_data_overrun:
  assumes "\<not> data_mutex s" "data_writable s"
    and "DATA_BUFFER_SIZE < length (store_text_of (take (nat (achievement_count s)) (achievements s)))"
  shows "overrun (save_engine_data s)"
proof -
  let ?cat = "take (nat (achievement_count s)) (achievements s)"
  let ?h = "''SWEETENGINE_DATA_v1\<newline>''"
  have h: "snprintf_at ([], 0) ?h = Some (?h, 20)"
    by (simp add: snprintf_at_def DATA_BUFFER_SIZE_def)
  have big: "DATA_BUFFER_SIZE < 20 + length (concat (map achievement_line ?cat))"
    using assms(3) by (simp add: store_text_of_def store_header_def)
  show ?thesis
  proof (cases "save_lines ?cat (?h, 20)")
    case None
    then show ?thesis
      using assms(1,2)
      by (simp add: save_engine_data_def pthread_mutex_lock_def Let_def h)
  next
    case (Some bw')
    then have "snd bw' = 20 + length (concat (map achievement_line ?cat))"
      using save_lines_written by fastforce
    then have "DATA_BUFFER_SIZE < snd bw'" using big by simp
    then show ?thesis
      using assms(1,2) Some
      by (simp add: save_engine_data_def pthread_mutex_lock_def Let_def h)
  qed
qed

lemma length_concat_replicate: "length (concat (replicate n xs)) = n * length xs"
  by (induction n) simp_all

lemma sample_full_overruns: "overrun (save_engine_data sample_full)"
proof (rule save_engine_data_overrun)
  show "\<not> data_mutex sample_full" "data_writable sample_full"
    by (simp_all add: sample_full_def program_start_def sample_world_def)
  have l: "length (achievement_line
      \<lparr>id_field = replicate 31 CHR ''i'', name = replicate 63 CHR ''n'',
       description = replicate 127 CHR ''d'', progress = 1, target = 2,
       unlocked = 0, unlock_time = 0\<rparr>) = 236"
    by code_simp
  show "DATA_BUFFER_SIZE
      < length (store_text_of (take (nat (achievement_count sample_full)) (achievements sample_full)))"
    by (simp add: sample_full_def store_text_of_def store_header_def length_concat_replicate l
        DATA_BUFFER_SIZE_def)
qed

lemma load_config_enabled:
  "enabled (snd (load_config s)) = 1 \<or> enabled (snd (load_config s)) = enabled s"
  by (simp add: load_config_def printf_def eprintf_def split: option.split)

lemma load_config_keeps_on:
  "enabled s \<noteq> 0 \<Longrightarrow> enabled (snd (load_config s)) \<noteq> 0"
  using load_config_enabled [of s] by auto

lemma config_reloads_keep_on:
  "enabled s \<noteq> 0 \<Longrightarrow> enabled (config_reloads contents s) \<noteq> 0"
proof (induction contents arbitrary: s)
  case Nil
  then show ?case by simp
next
  case (Cons content rest)
  have "enabled (snd (load_config (s\<lparr>ini_file := content\<rparr>))) \<noteq> 0"
    using Cons.prems by (intro load_config_keeps_on) simp
  then show ?case
    using Cons.IH by simp
qed

lemma load_loop_shape:
  "length (achievements (load_loop ls s)) = length (achievements s)
   \<and> (0 \<le> achievement_count s \<longrightarrow> 0 \<le> achievement_count (load_loop ls s))
   \<and> wayland_events (load_loop ls s) = wayland_events s
   \<and> same_queue s (load_loop ls s) \<and> data_mutex (load_loop ls s) = data_mutex s"
  by (induction ls arbitrary: s) (auto simp: same_queue_def)

lemma load_engine_data_cases:
  "load_engine_data s = (- 1, s)
   \<or> (\<exists>ls. load_engine_data s = (0, seed_defaults (load_loop ls (s\<lparr>achievement_count := 0\<rparr>))))"
  by (auto simp: load_engine_data_def Let_def split: option.splits)

lemma load_engine_data_ok:
  assumes "length (achievements s) = nat MAX_ACHIEVEMENTS" "achievement_count s = 0"
  shows "engine_ok (snd (load_engine_data s)) \<and> wayland_events (snd (load_engine_data s)) = wayland_events s
    \<and> same_queue s (snd (load_engine_data s)) \<and> data_mutex (snd (load_engine_data s)) = data_mutex s"
proof -
  have s0: "engine_ok s" using assms by (simp add: engine_ok_def MAX_ACHIEVEMENTS_def)
  consider "load_engine_data s = (- 1, s)"
    | ls where "load_engine_data s = (0, seed_defaults (load_loop ls (s\<lparr>achievement_count := 0\<rparr>)))"
    using load_engine_data_cases by blast
  then show ?thesis
  proof cases
    case 1
    then show ?thesis using s0 by simp
  next
    case 2
    let ?t = "s\<lparr>achievement_count := 0\<rparr>"
    let ?u = "load_loop ls ?t"
    note sh = load_loop_shape [of ls ?t]
    have cap: "achievement_count ?u \<le> MAX_ACHIEVEMENTS"
      by (rule load_loop_cap) (simp add: MAX_ACHIEVEMENTS_def)
    have len: "length (achievements ?u) = nat MAX_ACHIEVEMENTS" "0 \<le> achievement_count ?u"
      "wayland_events ?u = wayland_events s" "same_queue s ?u" "data_mutex ?u = data_mutex s"
      using sh assms(1) by (simp_all add: same_queue_def)
    have "engine_ok (seed_defaults ?u)"
      using len(1,2) cap by (simp add: engine_ok_def seed_defaults_def Let_def MAX_ACHIEVEMENTS_def)
    moreover have "wayland_events (seed_defaults ?u) = wayland_events s"
      "same_queue s (seed_defaults ?u)" "data_mutex (seed_defaults ?u) = data_mutex s"
      using len(3,4,5) by (simp_all add: seed_defaults_def Let_def same_queue_def)
    ultimately show ?thesis by (simp add: 2)
  qed
qed

lemma main_startup_ok:
  "engine_ok (snd (main_startup w)) \<and> queue_ok (snd (main_startup w))
   \<and> notification_count (snd (main_startup w)) = 0 \<and> wayland_events (snd (main_startup w)) = 0
   \<and> \<not> data_mutex (snd (main_startup w))"
proof -
  define s1 where "s1 = init_directories
      (printf ''SweetExperiencesEngine starting...\<newline>'' (program_start w))"
  obtain ok s2 where lc: "load_config s1 = (ok, s2)" by (cases "load_config s1")
  have s2: "s2 = snd (load_config s1)" by (simp add: lc)
  have b1: "length (achievements s1) = nat MAX_ACHIEVEMENTS" "achievement_count s1 = 0"
    "wayland_events s1 = 0" "\<not> data_mutex s1" "queue_ok s1" "notification_count s1 = 0"
    unfolding s1_def
    by (simp_all add: init_directories_def printf_def program_start_def queue_ok_def
        MAX_NOTIFICATIONS_def)
  have b: "length (achievements s2) = nat MAX_ACHIEVEMENTS" "achievement_count s2 = 0"
    "wayland_events s2 = 0" "\<not> data_mutex s2" "queue_ok s2" "notification_count s2 = 0"
    unfolding s2 using b1 by (simp_all add: queue_ok_def)
  have l: "engine_ok (snd (load_engine_data s2))"
    "wayland_events (snd (load_engine_data s2)) = wayland_events s2"
    "same_queue s2 (snd (load_engine_data s2))"
    "data_mutex (snd (load_engine_data s2)) = data_mutex s2"
    using load_engine_data_ok [OF b(1,2)] by simp_all
  have e: "engine_ok s2" using b by (simp add: engine_ok_def MAX_ACHIEVEMENTS_def)
  let ?s3 = "snd (load_engine_data s2)"
  have q: "queue_ok ?s3" "notification_count ?s3 = 0"
    using same_queue_ok [OF l(3)] l(3) b(5,6) by (simp_all add: same_queue_def)
  have pr: "engine_ok (printf x u) = engine_ok u" "queue_ok (printf x u) = queue_ok u"
    "notification_count (printf x u) = notification_count u"
    "wayland_events (printf x u) = wayland_events u" "data_mutex (printf x u) = data_mutex u"
    for x u
    by (simp_all add: printf_def engine_ok_def queue_ok_def)
  have lg: "engine_ok (log_engine_event x u) = engine_ok u"
    "queue_ok (log_engine_event x u) = queue_ok u" for x u
    by (simp_all add: engine_ok_def queue_ok_def)
  show ?thesis
  proof (cases "ok = 0")
    case True
    then have "snd (main_startup w) = printf ''SweetEngine: Disabled by config\<newline>'' s2"
      by (simp add: main_startup_def Let_def s1_def [symmetric] lc)
    then show ?thesis using b e by (simp add: pr)
  next
    case False
    then have "snd (main_startup w) = log_engine_event ''Engine started''
        (printf (''SweetEngine: Initialized with '' @ show_int (achievement_count ?s3)
                     @ '' achievements\<newline>'') ?s3)"
      by (simp add: main_startup_def Let_def s1_def [symmetric] lc)
    then show ?thesis using l(1,2,4) q b(3,4) by (simp add: pr lg)
  qed
qed

lemma send_notification_world:
  "data_mutex (snd (send_notification m t p s)) = data_mutex s"
  "data_file (snd (send_notification m t p s)) = data_file s"
  "enabled (snd (send_notification m t p s)) = enabled s"
  by (simp_all add: send_notification_def world_defs split: prod.splits bool.splits)

lemma log_engine_event_world:
  "data_file (log_engine_event e s) = data_file s"
  by (simp add: log_engine_event_def world_defs split: prod.splits)

lemma save_engine_data_locked: "data_mutex s \<Longrightarrow> save_engine_data s = Blocked s"
  by (simp add: save_engine_data_def pthread_mutex_lock_def)

lemma locked_rounds_block:
  assumes "data_mutex s" "enabled s \<noteq> 0"
  shows "blocked (achievement_monitor_tick s)" "0 < len \<Longrightarrow> blocked (kernel_hook_tick len s)"
    "blocked (notification_dispatcher_tick s)" "blocked (wayland_event_tick s)"
  using assms
  by (simp_all add: achievement_monitor_tick_def kernel_hook_tick_def notification_dispatcher_tick_def
      wayland_event_tick_def pthread_mutex_lock_def rand_def Let_def)

lemma sample_locked_facts:
  "engine_ok sample_locked" "data_mutex sample_locked" "2 = nat (achievement_count sample_locked)"
  "id_field (achievements sample_locked ! 0) = ''boot_master''"
  "target (achievements sample_locked ! 0) \<le> boot_count sample_locked"
  "unlocked (achievements sample_locked ! 0) = 0"
  "enabled sample_due \<noteq> 0" "\<not> data_mutex sample_due"
  "notification_count sample_locked = 0" "boot_count sample_due = 9"
  by code_simp+

section \<open>The claims\<close>

subsection \<open>Unlocking happens once\<close>

text \<open>
  Claim C1. Take any run of rounds of the threads and of direct calls of
  \<^verbatim>\<open>unlock_achievement\<close>, from a state whose catalog is within the bounds of its array, as
  it is after every start of the program. An entry \<open>i\<close> of the catalog goes from locked to
  unlocked at most once in the run. Once it is unlocked none of its fields changes any more,
  so its unlock time is the one assigned at that transition. Every step leaves the entry as
  it is, or sets the flag of a locked entry to 1 together with its unlock time and changes
  no other field. A call of \<^verbatim>\<open>unlock_achievement\<close> for an id that has no locked entry returns
  with the whole state unchanged: nothing is sent, logged or saved.
\<close>

theorem C1_unlock_at_most_once:
  assumes "engine_ok s0" and "i < nat (achievement_count s0)"
  shows "transitions i (trace es s0) \<le> 1
    \<and> (\<forall>j k. j \<le> k \<and> k < length (trace es s0)
           \<and> unlocked (achievements (trace es s0 ! j) ! i) \<noteq> 0
         \<longrightarrow> achievements (trace es s0 ! k) ! i = achievements (trace es s0 ! j) ! i)
    \<and> (\<forall>j. Suc j < length (trace es s0)
         \<longrightarrow> unlock_step (\<lambda>x. True) (achievements (trace es s0 ! j) ! i)
               (achievements (trace es s0 ! Suc j) ! i))
    \<and> ((\<forall>k < nat (achievement_count s). id_field (achievements s ! k) = ident
            \<longrightarrow> unlocked (achievements s ! k) \<noteq> 0)
        \<longrightarrow> unlock_achievement ident s = Returns () s)
    \<and> engine_ok (snd (main_startup w))"
proof -
  have i: "i < length (achievements s0)"
    using assms unfolding engine_ok_def by linarith
  note srt = trace_slot_sorted [OF i, of es]
  note nth = srt [unfolded sorted_wrt_iff_nth_less, rule_format]
  have a: "transitions i (trace es s0) \<le> 1"
    using srt by (rule transitions_le_one)
  have b: "achievements (trace es s0 ! k) ! i = achievements (trace es s0 ! j) ! i"
    if "j \<le> k" "k < length (trace es s0)" "unlocked (achievements (trace es s0 ! j) ! i) \<noteq> 0"
    for j k
  proof (cases "j = k")
    case True
    then show ?thesis by simp
  next
    case False
    then have "slot_step i (trace es s0 ! j) (trace es s0 ! k)"
      using that by (intro nth) simp_all
    then show ?thesis using that(3) by (rule slot_step_frozen)
  qed
  have c: "unlock_step (\<lambda>x. True) (achievements (trace es s0 ! j) ! i)
               (achievements (trace es s0 ! Suc j) ! i)" if "Suc j < length (trace es s0)" for j
    using nth [of j "Suc j"] that by (simp add: slot_step_def)
  have d: "unlock_achievement ident s = Returns () s"
    if "\<forall>k < nat (achievement_count s). id_field (achievements s ! k) = ident
            \<longrightarrow> unlocked (achievements s ! k) \<noteq> 0"
    unfolding unlock_achievement_def using that by (intro unlock_loop_no_match) simp
  have e: "engine_ok (snd (main_startup w))" using main_startup_ok [of w] by simp
  show ?thesis using a b c d e by blast
qed

text \<open>An instance: two unlock calls for \<^verbatim>\<open>boot_master\<close> and a round of the monitor, after the
  start of the program in the example world.\<close>

theorem C1_unlock_at_most_once_witness:
  "engine_ok sample_start \<and> 0 < nat (achievement_count sample_start)
   \<and> transitions 0 (trace [Unlock_call ''boot_master'', Unlock_call ''boot_master'', Monitor_tick]
        sample_start) \<le> 1"
proof -
  have h: "0 < nat (achievement_count sample_start)"
    by (simp add: sample_start_engine)
  show ?thesis
    using C1_unlock_at_most_once [OF sample_start_engine(1) h,
        where es = "[Unlock_call ''boot_master'', Unlock_call ''boot_master'', Monitor_tick]"]
      sample_start_engine(1) h by blast
qed

subsection \<open>The first run seeds no defaults\<close>

text \<open>
  Claim C2. When the store file is missing, empty or unreadable, the program is to go on
  with the two default achievements \<^verbatim>\<open>boot_master\<close> (target 10) and \<^verbatim>\<open>wayland_pro\<close>
  (target 500). The code does not: \<^verbatim>\<open>load_engine_data\<close> returns -1 at
  \<^verbatim>\<open>if (fd < 0) return -1;\<close> or at \<^verbatim>\<open>if (len <= 0) return -1;\<close>, before its block that
  initialises the defaults, and \<^verbatim>\<open>main\<close> does not look at the result. In the example world
  with a missing store (\<^verbatim>\<open>init_directories\<close> creates it empty), with an empty store and
  with an unreadable store, startup goes through and the catalog holds no achievement. It
  holds the two defaults only when the store is not empty and has no record line, as in the
  example world itself.
\<close>

theorem C2_first_run_no_defaults:
  "fst (main_startup (sample_world\<lparr>data_file := None\<rparr>))
   \<and> data_file (snd (main_startup (sample_world\<lparr>data_file := None\<rparr>))) = Some []
   \<and> achievement_count (snd (main_startup (sample_world\<lparr>data_file := None\<rparr>))) = 0
   \<and> fst (main_startup (sample_world\<lparr>data_file := Some []\<rparr>))
   \<and> achievement_count (snd (main_startup (sample_world\<lparr>data_file := Some []\<rparr>))) = 0
   \<and> fst (main_startup (sample_world\<lparr>data_readable := False\<rparr>))
   \<and> achievement_count (snd (main_startup (sample_world\<lparr>data_readable := False\<rparr>))) = 0
   \<and> fst (load_engine_data (init_directories (program_start (sample_world\<lparr>data_file := None\<rparr>)))) = - 1
   \<and> achievement_count (snd (main_startup sample_world)) = 2"
  by code_simp

subsection \<open>Saving and loading a catalog\<close>

text \<open>
  Claim C3. Let the catalog hold between 1 and 50 records, each with text fields that are
  not empty, fit their arrays (31, 63 and 127 bytes) and hold no bar, newline or NUL byte,
  and with numbers in the range of their C types; let the text of the store, the header
  line and one line per record, be shorter than the buffer of 4096 bytes that
  \<^verbatim>\<open>save_engine_data\<close> formats it in. Then \<^verbatim>\<open>save_engine_data\<close> returns 0 and writes that
  text, and \<^verbatim>\<open>load_engine_data\<close> in any process that reads this file returns 0 and gives
  the same number of records with every field of every record as it was saved.
\<close>

theorem C3_save_load_roundtrip:
  assumes "engine_ok s" and "0 < achievement_count s"
    and "list_all storable (take (nat (achievement_count s)) (achievements s))"
    and "length (store_text_of (take (nat (achievement_count s)) (achievements s))) < DATA_BUFFER_SIZE"
    and "data_writable s" and "\<not> data_mutex s"
    and "data_file s2 = data_file (state_of (save_engine_data s))" and "data_readable s2"
    and "length (achievements s2) = nat MAX_ACHIEVEMENTS"
  shows "save_engine_data s
      = Returns 0 (s\<lparr>data_file := Some (store_text_of (take (nat (achievement_count s)) (achievements s))),
            data_mutex := False\<rparr>)
    \<and> fst (load_engine_data s2) = 0
    \<and> achievement_count (snd (load_engine_data s2)) = achievement_count s
    \<and> take (nat (achievement_count s)) (achievements (snd (load_engine_data s2)))
        = take (nat (achievement_count s)) (achievements s)"
proof -
  define n where "n = nat (achievement_count s)"
  define cat where "cat = take n (achievements s)"
  define arr where "arr = achievements s2"
  have n: "n \<le> 50" "0 < n" "int n = achievement_count s" "length (achievements s) = 50"
    using assms(1,2) unfolding engine_ok_def n_def MAX_ACHIEVEMENTS_def by auto
  have len: "length cat = n" unfolding cat_def using n by simp
  have st: "\<forall>a \<in> set cat. storable a"
    using assms(3) unfolding cat_def n_def by (simp add: list_all_iff)
  have sv: "save_engine_data s
      = Returns 0 (s\<lparr>data_file := Some (store_text_of cat), data_mutex := False\<rparr>)"
    unfolding cat_def n_def using assms(6,5,4) by (rule save_engine_data_fits)
  have stored: "data_file s2 = Some (store_text_of cat)"
    using assms(7) by (simp add: sv)
  have ne: "store_text_of cat \<noteq> []"
    by (simp add: store_text_of_def store_header_def)
  have whole: "take (DATA_BUFFER_SIZE - 1) (store_text_of cat) = store_text_of cat"
    using assms(4) unfolding cat_def n_def by simp
  have arrlen: "length arr = 50"
    using assms(9) by (simp add: arr_def MAX_ACHIEVEMENTS_def)
  have hdr: "load_entries (store_header # map record_line cat) (arr, 0)
      = load_entries (map record_line cat) (arr, int 0)"
    by (simp add: store_header_def MAX_ACHIEVEMENTS_def)
  have ent: "load_entries (map record_line cat) (arr, int 0)
      = (take 0 arr @ cat @ drop (0 + length cat) arr, int (0 + length cat))"
    using st by (rule load_entries_records) (simp_all add: len arrlen n)
  have entries: "load_entries (store_header # map record_line cat) (arr, 0)
      = (cat @ drop n arr, int n)"
    unfolding hdr ent by (simp add: len)
  have ll: "load_loop (store_header # map record_line cat) (s2\<lparr>achievement_count := 0\<rparr>)
      = s2\<lparr>achievements := cat @ drop n arr, achievement_count := int n\<rparr>"
    unfolding load_loop_entries
    by (simp add: entries [unfolded arr_def] arr_def del: load_entries.simps)
  have ld: "load_engine_data s2
      = (0, s2\<lparr>achievements := cat @ drop n arr, achievement_count := int n\<rparr>)"
    unfolding load_engine_data_eq [OF assms(8) stored ne] whole store_tokens [OF st] ll
    using n(2) by (simp add: seed_defaults_def)
  have "take n (cat @ drop n arr) = cat" by (simp add: len)
  then show ?thesis
    unfolding n_def [symmetric] cat_def [symmetric] using sv ld n(3) by simp
qed

text \<open>An instance: the catalog of the two defaults is saved, and loaded by a new process.\<close>

theorem C3_save_load_roundtrip_witness:
  "engine_ok sample_start \<and> 0 < achievement_count sample_start
   \<and> list_all storable (take (nat (achievement_count sample_start)) (achievements sample_start))
   \<and> length (store_text_of (take (nat (achievement_count sample_start)) (achievements sample_start)))
        < DATA_BUFFER_SIZE
   \<and> data_writable sample_start \<and> \<not> data_mutex sample_start
   \<and> data_file (sample_restart sample_start) = data_file (state_of (save_engine_data sample_start))
   \<and> data_readable (sample_restart sample_start)
   \<and> length (achievements (sample_restart sample_start)) = nat MAX_ACHIEVEMENTS
   \<and> fst (load_engine_data (sample_restart sample_start)) = 0
   \<and> achievement_count (snd (load_engine_data (sample_restart sample_start)))
        = achievement_count sample_start
   \<and> take (nat (achievement_count sample_start))
          (achievements (snd (load_engine_data (sample_restart sample_start))))
        = take (nat (achievement_count sample_start)) (achievements sample_start)"
proof -
  have f: "data_file (sample_restart sample_start) = data_file (state_of (save_engine_data sample_start))"
    by (simp add: sample_restart_def program_start_def)
  show ?thesis
    using C3_save_load_roundtrip [OF sample_start_engine(1) sample_storable(1,2,3,4)
        sample_start_running(2) f sample_storable(5,6)]
      sample_start_engine(1) sample_storable sample_start_running(2) f
    by blast
qed

text \<open>Outside these bounds the catalog does not come back. The empty catalog comes back as the
  two defaults. A record with an empty name comes back with its later fields lost, because
  \<^verbatim>\<open>%63[^|]\<close> matches no empty field and \<^verbatim>\<open>sscanf\<close> stops there. For 50 records with text
  fields of full length \<^verbatim>\<open>save_engine_data\<close> writes beyond its buffer.\<close>

theorem C3_roundtrip_fails:
  "achievement_count (program_start sample_world) = 0
   \<and> achievement_count (snd (load_engine_data (sample_restart (program_start sample_world)))) = 2
   \<and> achievement_count sample_blank_name = 1
   \<and> description (achievements sample_blank_name ! 0) = ''d''
   \<and> description (achievements (snd (load_engine_data (sample_restart sample_blank_name))) ! 0) = []
   \<and> target (achievements sample_blank_name ! 0) = 2
   \<and> target (achievements (snd (load_engine_data (sample_restart sample_blank_name))) ! 0) = 0
   \<and> achievement_count sample_full = MAX_ACHIEVEMENTS
   \<and> overrun (save_engine_data sample_full)"
proof -
  have "achievement_count sample_blank_name = 1" "achievement_count sample_full = MAX_ACHIEVEMENTS"
    by (simp_all add: sample_blank_name_def sample_full_def MAX_ACHIEVEMENTS_def)
  then show ?thesis
    using sample_reloads sample_full_overruns by blast
qed

subsection \<open>The queue holds 99 notifications\<close>

text \<open>
  Claim C4. The producer's guard is \<^verbatim>\<open>notification_count < MAX_NOTIFICATIONS - 1\<close>, so with
  \<^verbatim>\<open>MAX_NOTIFICATIONS\<close> = 100 the queue holds at most 99 notifications. When the producer's
  block runs 101 times on an empty queue (the event counter being a multiple of 50, as the
  block requires), the first 99 runs store their notification; the 100th and the 101st store
  nothing and change nothing. The queue then holds the first 99 notifications in the order
  they were stored, 99 runs of the dispatcher's block return exactly these in that order,
  and the next run returns nothing.
\<close>

theorem C4_queue_full_keeps_99:
  assumes "queue_ok s" and "notification_count s = 0" and "event_count s mod 50 = 0"
  shows "notification_count (push_n 101 s) = 99
    \<and> (\<forall>k < 99. fst (queue_progress_notification (push_n k s)))
    \<and> queue_progress_notification (push_n 99 s) = (False, push_n 99 s)
    \<and> queue_progress_notification (push_n 100 s) = (False, push_n 100 s)
    \<and> push_n 101 s = push_n 99 s
    \<and> pending (push_n 101 s) = map (nth_item s) [0..<99]
    \<and> fst (pop_n 99 (push_n 101 s)) = map (\<lambda>k. Some (nth_item s k)) [0..<99]
    \<and> notification_count (snd (pop_n 99 (push_n 101 s))) = 0
    \<and> fst (dispatch_queued (snd (pop_n 99 (push_n 101 s)))) = None"
proof -
  note f = push_n_facts [OF assms(1,3,2)]
  have full: "queue_progress_notification (push_n n s) = (False, push_n n s)" if "99 \<le> n" for n
    using that f [of n] by (intro push_rejected) (simp add: upto99_def)
  have a: "push_n 100 s = push_n 99 s"
    using full [of 99] by (simp add: eval_nat_numeral)
  have b: "push_n 101 s = push_n 100 s"
    using full [of 100] by (simp add: eval_nat_numeral)
  have acc: "fst (queue_progress_notification (push_n k s))" if "k < 99" for k
  proof -
    have "notification_count (push_n k s) < 99" "event_count (push_n k s) mod 50 = 0"
      using that f [of k] assms(3) by (simp_all add: upto99_def)
    then show ?thesis by (simp add: push_accepted)
  qed
  have q: "queue_ok (push_n 101 s)" using f [of 101] by simp
  have p: "pending (push_n 101 s) = map (nth_item s) [0..<99]"
    using f [of 101] by (simp add: upto99_def)
  note g = pop_n_facts [OF q, of 99]
  have c0: "notification_count (snd (pop_n 99 (push_n 101 s))) = 0"
    using g by (simp add: p)
  have "fst (dispatch_queued (snd (pop_n 99 (push_n 101 s)))) = None"
    using dispatch_queued_empty [of "snd (pop_n 99 (push_n 101 s))"] g c0 by simp
  moreover have "fst (pop_n 99 (push_n 101 s)) = map (\<lambda>k. Some (nth_item s k)) [0..<99]"
    using g by (simp add: p o_def)
  moreover have "notification_count (push_n 101 s) = 99"
    using f [of 101] by (simp add: upto99_def)
  ultimately show ?thesis
    using acc full [of 99] full [of 100] a b p c0 by simp
qed

text \<open>An instance: 101 runs of the producer's block after the start of the program.\<close>

theorem C4_queue_full_keeps_99_witness:
  "queue_ok sample_start \<and> notification_count sample_start = 0
   \<and> event_count sample_start mod 50 = 0
   \<and> notification_count (push_n 101 sample_start) = 99
   \<and> push_n 101 sample_start = push_n 99 sample_start
   \<and> fst (pop_n 99 (push_n 101 sample_start)) = map (\<lambda>k. Some (nth_item sample_start k)) [0..<99]"
  using C4_queue_full_keeps_99 [OF sample_start_queue(1,2,3)] sample_start_queue by blast

text \<open>The queue never holds \<^verbatim>\<open>MAX_NOTIFICATIONS\<close> = 100 notifications: the 100th push is
  rejected already.\<close>

theorem C4_hundred_not_retained:
  "notification_count (push_n 101 sample_start) = 99
   \<and> notification_count (push_n 101 sample_start) \<noteq> MAX_NOTIFICATIONS
   \<and> \<not> fst (queue_progress_notification (push_n 99 sample_start))"
proof -
  note f = push_n_facts [OF sample_start_queue(1,3,2)]
  have "\<not> (event_count (push_n 99 sample_start) mod 50 = 0
      \<and> notification_count (push_n 99 sample_start) < 99)"
    using f [of 99] by (simp add: upto99_def)
  then have "\<not> fst (queue_progress_notification (push_n 99 sample_start))"
    by (simp add: push_rejected)
  then show ?thesis
    using f [of 101] by (simp add: upto99_def MAX_NOTIFICATIONS_def)
qed

subsection \<open>Bounds and order of the queue\<close>

text \<open>
  Claim C5. In every state that a run of rounds of the threads reaches from a state with a
  well-formed empty queue, as it is after every start of the program, the count is between
  0 and \<^verbatim>\<open>MAX_NOTIFICATIONS\<close>. The dispatcher's block on an empty queue returns no
  notification and leaves the state as it is; on a queue that is not empty it returns the
  oldest queued notification, leaves the others in their order and takes 1 from the count.
  The producer's block puts its notification behind all queued ones, or leaves the queue as
  it is. A round of any thread leaves the queued notifications as they are, removes the
  oldest (the dispatcher) or adds one at the back (the Wayland listener).
\<close>

theorem C5_queue_bounds_fifo:
  assumes "queue_ok s0" and "notification_count s0 = 0" and "s \<in> set (trace es s0)"
  shows "0 \<le> notification_count s \<and> notification_count s \<le> MAX_NOTIFICATIONS
    \<and> length (pending s) = nat (notification_count s)
    \<and> (notification_count s = 0 \<longrightarrow> dispatch_queued s = (None, s))
    \<and> (notification_count s \<noteq> 0 \<longrightarrow>
          fst (dispatch_queued s) = Some (hd (pending s))
          \<and> pending (snd (dispatch_queued s)) = tl (pending s)
          \<and> notification_count (snd (dispatch_queued s)) = notification_count s - 1)
    \<and> pending (snd (queue_progress_notification s)) =
         (if fst (queue_progress_notification s) then pending s @ [progress_item s] else pending s)
    \<and> (pending (state_of (exec e s)) = pending s
        \<or> (e = Dispatcher_tick \<and> pending (state_of (exec e s)) = tl (pending s))
        \<or> (e = Wayland_tick
            \<and> pending (state_of (exec e s)) = pending s @ [progress_item (after_listen s)]))
    \<and> queue_ok (snd (main_startup w)) \<and> notification_count (snd (main_startup w)) = 0"
proof -
  have q: "queue_ok s" using assms(1,3) by (rule trace_queue_ok)
  have "0 \<le> notification_count s" "notification_count s \<le> MAX_NOTIFICATIONS"
    using queue_ok_bounds [OF q] by (simp_all add: MAX_NOTIFICATIONS_def)
  moreover have "notification_count s = 0 \<longrightarrow> dispatch_queued s = (None, s)"
    using q by (simp add: dispatch_queued_empty)
  moreover have "notification_count s \<noteq> 0 \<longrightarrow>
          fst (dispatch_queued s) = Some (hd (pending s))
          \<and> pending (snd (dispatch_queued s)) = tl (pending s)
          \<and> notification_count (snd (dispatch_queued s)) = notification_count s - 1"
    using q by (simp add: dispatch_queued_pop)
  moreover have "queue_ok (snd (main_startup w))" "notification_count (snd (main_startup w)) = 0"
    using main_startup_ok [of w] by simp_all
  ultimately show ?thesis
    using push_pending_if [OF q] exec_pending [OF q, of e] pending_length [of s] by blast
qed

text \<open>An instance: two rounds of the Wayland listener and one of the dispatcher.\<close>

theorem C5_queue_bounds_fifo_witness:
  "queue_ok sample_start \<and> notification_count sample_start = 0
   \<and> last (trace [Wayland_tick, Wayland_tick, Dispatcher_tick] sample_start)
        \<in> set (trace [Wayland_tick, Wayland_tick, Dispatcher_tick] sample_start)
   \<and> 0 \<le> notification_count (last (trace [Wayland_tick, Wayland_tick, Dispatcher_tick] sample_start))
   \<and> notification_count (last (trace [Wayland_tick, Wayland_tick, Dispatcher_tick] sample_start))
        \<le> MAX_NOTIFICATIONS"
proof -
  let ?es = "[Wayland_tick, Wayland_tick, Dispatcher_tick]"
  have m: "last (trace ?es sample_start) \<in> set (trace ?es sample_start)"
    by (rule last_in_set) (rule trace_nonempty)
  show ?thesis
    using C5_queue_bounds_fifo [OF sample_start_queue(1,2) m, of Dispatcher_tick]
      sample_start_queue m by blast
qed

subsection \<open>What an unlock does\<close>

text \<open>
  Claim C6. When the evaluator finds a locked achievement whose counter has reached its
  target, it is to set the unlock time, put one \<^verbatim>\<open>achievement\<close> notification into the
  queue, append a line to the log and save the catalog. The evaluator runs with the data
  mutex held: both threads that call \<^verbatim>\<open>check_achievement_progress\<close> lock it first. Let
  entry \<open>i\<close> be the first locked entry with its id, and let its counter have reached the
  target. The evaluator's loop sets the entry's flag to 1 and its unlock time to the
  current time, makes one attempt to deliver an \<^verbatim>\<open>achievement\<close> notification about the
  unlock straight to the socket (the notification queue, its count, head and tail stay as
  they are), and appends the line \<^verbatim>\<open>Achievement unlocked\<close> to the log file when it can be
  opened. Then it calls \<^verbatim>\<open>save_engine_data\<close>, which begins by locking the same mutex again,
  and this call never returns. The store file is not written, the loop does not get to the
  entries that follow, and the mutex stays locked, so that from then on every round of the
  monitor, the kernel hook, the dispatcher and the Wayland listener blocks too. For
  \<^verbatim>\<open>boot_master\<close> this is how the round of the achievement monitor ends, and that of the
  kernel hook after an event.
\<close>

theorem C6_evaluator_unlock_blocks_in_save:
  assumes "engine_ok s" and "data_mutex s" and "n = nat (achievement_count s)"
    and "lo \<le> i" and "i < n"
    and "id_field (achievements s ! i) = ident" and "target (achievements s ! i) \<le> counter s"
    and "unlocked (achievements s ! i) = 0"
    and "\<forall>j < i. id_field (achievements s ! j) = ident \<longrightarrow> unlocked (achievements s ! j) \<noteq> 0"
  shows "let a = (achievements s ! i)\<lparr>unlocked := 1, unlock_time := clock s (time_calls s)\<rparr>;
             s1 = s\<lparr>time_calls := Suc (time_calls s), achievements := (achievements s)[i := a]\<rparr>;
             s2 = snd (send_notification (unlock_message a) ''achievement'' 5 s1);
             s3 = log_engine_event ''Achievement unlocked'' s2
         in check_loop [lo..<n] ident counter s = Blocked s3
          \<and> unlock_achievement ident s = Blocked s3
          \<and> save_engine_data s3 = Blocked s3
          \<and> data_mutex s3 \<and> data_file s3 = data_file s
          \<and> (ident = ''boot_master'' \<and> lo = 0 \<and> counter = boot_count
                \<and> enabled s0 \<noteq> 0 \<and> \<not> data_mutex s0
                \<and> s = s0\<lparr>data_mutex := True, boot_count := wrap_int (boot_count s0 + 1)\<rparr>
              \<longrightarrow> achievement_monitor_tick s0 = Blocked s3
                  \<and> (0 < len \<longrightarrow> kernel_hook_tick len s0 = Blocked s3))
          \<and> (enabled s \<noteq> 0
              \<longrightarrow> blocked (achievement_monitor_tick s3)
                  \<and> (0 < len \<longrightarrow> blocked (kernel_hook_tick len s3))
                  \<and> blocked (notification_dispatcher_tick s3)
                  \<and> blocked (wayland_event_tick s3))
          \<and> achievements s3 ! i = a \<and> unlocked a = 1 \<and> unlock_time a = clock s (time_calls s)
          \<and> notification_queue s3 = notification_queue s
          \<and> notification_count s3 = notification_count s
          \<and> notification_head s3 = notification_head s
          \<and> notification_tail s3 = notification_tail s
          \<and> connect_calls s3 = Suc (connect_calls s)
          \<and> socket_out s3 = socket_out s
               @ (if connect_ok s (connect_calls s)
                  then [snprintf 512 (notification_json ''achievement'' (unlock_message a) 5
                          (clock s (Suc (time_calls s))))]
                  else [])
          \<and> log_file s3 = log_file s
               @ (if log_writable s
                  then ''['' @ butlast (ctime_text s (clock s (time_calls s2))) @ ''] ''
                         @ ''Achievement unlocked'' @ ''\<newline>''
                  else [])"
proof -
  define a where "a = (achievements s ! i)\<lparr>unlocked := 1, unlock_time := clock s (time_calls s)\<rparr>"
  define s1 where "s1 = s\<lparr>time_calls := Suc (time_calls s), achievements := (achievements s)[i := a]\<rparr>"
  define s2 where "s2 = snd (send_notification (unlock_message a) ''achievement'' 5 s1)"
  define s3 where "s3 = log_engine_event ''Achievement unlocked'' s2"
  have len: "i < length (achievements s)"
    using assms(1,3,5) unfolding engine_ok_def by linarith
  have held: "data_mutex s3" "data_file s3 = data_file s" "enabled s3 = enabled s"
    unfolding s3_def s2_def s1_def using assms(2)
    by (simp_all add: send_notification_world log_engine_event_world)
  have sv: "save_engine_data s3 = Blocked s3"
    using held(1) by (rule save_engine_data_locked)
  have "unlock_at i s = then_do (save_engine_data s3) (\<lambda>_ s6. Returns () s6)"
    unfolding s3_def s2_def s1_def a_def using len by (rule unlock_at_eq)
  then have ua: "unlock_at i s = Blocked s3" by (simp add: sv)
  have pre: "\<forall>j \<in> set [0..<i]. \<not> (id_field (achievements s ! j) = ident
      \<and> unlocked (achievements s ! j) = 0)"
    using assms(9) by simp
  have "[0..<n] = [0..<i] @ i # [Suc i..<n]"
    using assms(5) by (intro upt_split3) simp_all
  then have u: "unlock_achievement ident s = Blocked s3"
    unfolding unlock_achievement_def assms(3) [symmetric]
    using unlock_loop_first [OF pre assms(6,8)] ua by simp
  have pre2: "\<forall>j \<in> set [lo..<i]. \<not> (id_field (achievements s ! j) = ident
      \<and> counter s \<ge> target (achievements s ! j) \<and> unlocked (achievements s ! j) = 0)"
    using assms(9) by simp
  have "check_loop [lo..<n] ident counter s = check_loop (i # [Suc i..<n]) ident counter s"
    unfolding upt_split3 [OF assms(4,5)] using pre2 by (rule check_loop_skip)
  also have "\<dots> = then_do (unlock_achievement ident s) (\<lambda>_ s'. check_loop [Suc i..<n] ident counter s')"
    using assms(6,7,8) by simp
  also have "\<dots> = Blocked s3" by (simp add: u)
  finally have loop: "check_loop [lo..<n] ident counter s = Blocked s3" .
  have thread: "achievement_monitor_tick s0 = Blocked s3
      \<and> (0 < len \<longrightarrow> kernel_hook_tick len s0 = Blocked s3)"
    if h: "ident = ''boot_master''" "lo = 0" "counter = boot_count" "enabled s0 \<noteq> 0" "\<not> data_mutex s0"
      "s = s0\<lparr>data_mutex := True, boot_count := wrap_int (boot_count s0 + 1)\<rparr>"
  proof -
    have c: "achievement_count s = achievement_count s0" by (subst h(6)) simp
    have "check_loop [0..<nat (achievement_count s0)] ''boot_master'' boot_count
            (s0\<lparr>data_mutex := True, boot_count := wrap_int (boot_count s0 + 1)\<rparr>) = Blocked s3"
      using loop unfolding assms(3) c h(1,2,3) h(6) [symmetric] .
    then have "check_achievement_progress (s0\<lparr>data_mutex := True\<rparr>) = Blocked s3"
      by (simp add: check_achievement_progress_def Let_def)
    then show ?thesis
      using h(4,5)
      by (simp add: achievement_monitor_tick_def kernel_hook_tick_def pthread_mutex_lock_def)
  qed
  have later: "blocked (achievement_monitor_tick s3) \<and> (0 < len \<longrightarrow> blocked (kernel_hook_tick len s3))
      \<and> blocked (notification_dispatcher_tick s3) \<and> blocked (wayland_event_tick s3)"
    if "enabled s \<noteq> 0"
    using locked_rounds_block [OF held(1)] that held(3) by simp
  have ach: "achievements s3 ! i = a"
    unfolding s3_def s2_def s1_def using len by simp
  have q: "notification_queue s3 = notification_queue s" "notification_count s3 = notification_count s"
    "notification_head s3 = notification_head s" "notification_tail s3 = notification_tail s"
    unfolding s3_def s2_def s1_def by simp_all
  have w1: "connect_ok s1 = connect_ok s" "connect_calls s1 = connect_calls s"
    "socket_out s1 = socket_out s" "clock s1 = clock s" "time_calls s1 = Suc (time_calls s)"
    "log_file s1 = log_file s" "log_writable s1 = log_writable s" "ctime_text s1 = ctime_text s"
    unfolding s1_def by simp_all
  have w2: "connect_calls s2 = Suc (connect_calls s)
    \<and> socket_out s2 = socket_out s
         @ (if connect_ok s (connect_calls s)
            then [snprintf 512 (notification_json ''achievement'' (unlock_message a) 5
                    (clock s (Suc (time_calls s))))]
            else [])
    \<and> log_file s2 = log_file s \<and> log_writable s2 = log_writable s \<and> clock s2 = clock s
    \<and> ctime_text s2 = ctime_text s"
  proof (cases "connect_ok s (connect_calls s)")
    case True
    then have "connect_ok s1 (connect_calls s1)" by (simp add: w1)
    then show ?thesis unfolding s2_def using True by (simp add: send_notification_sent w1)
  next
    case False
    then have "\<not> connect_ok s1 (connect_calls s1)" by (simp add: w1)
    then show ?thesis unfolding s2_def using False by (simp add: send_notification_failed w1)
  qed
  have w3: "connect_calls s3 = connect_calls s2" "socket_out s3 = socket_out s2"
    "log_file s3 = log_file s2
       @ (if log_writable s2
          then ''['' @ butlast (ctime_text s2 (clock s2 (time_calls s2))) @ ''] ''
                 @ ''Achievement unlocked'' @ ''\<newline>''
          else [])"
    unfolding s3_def by (simp_all add: log_engine_event_def time_now_def)
  have fields: "unlocked a = 1" "unlock_time a = clock s (time_calls s)"
    unfolding a_def by simp_all
  have part1: "check_loop [lo..<n] ident counter s = Blocked s3
          \<and> unlock_achievement ident s = Blocked s3
          \<and> save_engine_data s3 = Blocked s3
          \<and> data_mutex s3 \<and> data_file s3 = data_file s"
    using loop u sv held by simp
  have part2: "achievements s3 ! i = a \<and> unlocked a = 1 \<and> unlock_time a = clock s (time_calls s)
          \<and> notification_queue s3 = notification_queue s
          \<and> notification_count s3 = notification_count s
          \<and> notification_head s3 = notification_head s
          \<and> notification_tail s3 = notification_tail s
          \<and> connect_calls s3 = Suc (connect_calls s)
          \<and> socket_out s3 = socket_out s
               @ (if connect_ok s (connect_calls s)
                  then [snprintf 512 (notification_json ''achievement'' (unlock_message a) 5
                          (clock s (Suc (time_calls s))))]
                  else [])
          \<and> log_file s3 = log_file s
               @ (if log_writable s
                  then ''['' @ butlast (ctime_text s (clock s (time_calls s2))) @ ''] ''
                         @ ''Achievement unlocked'' @ ''\<newline>''
                  else [])"
    using ach q w2 w3 fields by simp
  show ?thesis
    unfolding Let_def a_def [symmetric] s1_def [symmetric] s2_def [symmetric] s3_def [symmetric]
    using part1 part2 thread later by blast
qed

text \<open>An instance: the program is started in the example world and the monitor has made nine
  rounds. Its tenth round finds \<^verbatim>\<open>boot_master\<close> due and blocks: the entry is unlocked in
  memory, the store file is as it was, the queue is empty, the mutex is held, and the
  dispatcher blocks in its next round.\<close>

theorem C6_evaluator_unlock_blocks_in_save_witness:
  "engine_ok sample_locked \<and> data_mutex sample_locked \<and> 2 = nat (achievement_count sample_locked)
   \<and> id_field (achievements sample_locked ! 0) = ''boot_master''
   \<and> target (achievements sample_locked ! 0) \<le> boot_count sample_locked
   \<and> unlocked (achievements sample_locked ! 0) = 0
   \<and> boot_count sample_due = 9 \<and> enabled sample_due \<noteq> 0 \<and> \<not> data_mutex sample_due
   \<and> blocked (achievement_monitor_tick sample_due)
   \<and> data_mutex (state_of (achievement_monitor_tick sample_due))
   \<and> data_file (state_of (achievement_monitor_tick sample_due)) = data_file sample_locked
   \<and> unlocked (achievements (state_of (achievement_monitor_tick sample_due)) ! 0) = 1
   \<and> notification_count (state_of (achievement_monitor_tick sample_due)) = 0
   \<and> blocked (notification_dispatcher_tick (state_of (achievement_monitor_tick sample_due)))"
proof -
  have lo: "(0::nat) \<le> 0" "(0::nat) < 2" by simp_all
  have first: "\<forall>j < (0::nat). id_field (achievements sample_locked ! j) = ''boot_master''
      \<longrightarrow> unlocked (achievements sample_locked ! j) \<noteq> 0" by simp
  note f = sample_locked_facts
  note t = C6_evaluator_unlock_blocks_in_save [where s = sample_locked and counter = boot_count
      and n = 2 and lo = 0 and i = 0 and ident = "''boot_master''" and ?s0.0 = sample_due and len = 1,
      OF f(1,2,3) lo f(4,5,6) first, unfolded Let_def]
  have en: "enabled sample_locked \<noteq> 0" using f(7) by (simp add: sample_locked_def)
  let ?a = "(achievements sample_locked ! 0)
      \<lparr>unlocked := 1, unlock_time := clock sample_locked (time_calls sample_locked)\<rparr>"
  let ?s3 = "log_engine_event ''Achievement unlocked''
      (snd (send_notification (unlock_message ?a) ''achievement'' 5
         (sample_locked\<lparr>time_calls := Suc (time_calls sample_locked),
            achievements := (achievements sample_locked)[0 := ?a]\<rparr>)))"
  have m: "achievement_monitor_tick sample_due = Blocked ?s3"
    using t f(7,8) sample_locked_def by blast
  have r: "data_mutex ?s3" "data_file ?s3 = data_file sample_locked" "achievements ?s3 ! 0 = ?a"
    "notification_count ?s3 = notification_count sample_locked"
    "blocked (notification_dispatcher_tick ?s3)"
    using t en by blast+
  have u: "unlocked (achievements ?s3 ! 0) = 1" by (subst r(3)) simp
  show ?thesis
    unfolding m state_of.simps using r(1,2,4,5) u f by simp
qed

subsection \<open>Lines of the store that are skipped\<close>




subsection \<open>Reloading the configuration\<close>

text \<open>
  Claim C8. Whatever the configuration file holds, and also when it is missing,
  \<^verbatim>\<open>load_config\<close> and a round of the watch loop of \<^verbatim>\<open>main\<close> either set \<^verbatim>\<open>engine.enabled\<close>
  to 1 or leave it as it is. So an engine that is enabled stays enabled through any
  sequence of reloads.
\<close>

theorem C8_reload_never_disables:
  "(enabled (snd (load_config (s\<lparr>ini_file := content\<rparr>))) = 1
      \<or> enabled (snd (load_config (s\<lparr>ini_file := content\<rparr>))) = enabled s)
   \<and> (enabled (config_watch_tick len (s\<lparr>ini_file := content\<rparr>)) = 1
      \<or> enabled (config_watch_tick len (s\<lparr>ini_file := content\<rparr>)) = enabled s)
   \<and> (enabled s \<noteq> 0 \<longrightarrow> enabled (config_reloads contents s) \<noteq> 0)"
proof (intro conjI impI)
  show a: "enabled (snd (load_config (s\<lparr>ini_file := content\<rparr>))) = 1
      \<or> enabled (snd (load_config (s\<lparr>ini_file := content\<rparr>))) = enabled s"
    using load_config_enabled [of "s\<lparr>ini_file := content\<rparr>"] by simp
  show "enabled (config_watch_tick len (s\<lparr>ini_file := content\<rparr>)) = 1
      \<or> enabled (config_watch_tick len (s\<lparr>ini_file := content\<rparr>)) = enabled s"
    using a by (simp add: config_watch_tick_def)
  show "enabled s \<noteq> 0 \<Longrightarrow> enabled (config_reloads contents s) \<noteq> 0"
    by (rule config_reloads_keep_on)
qed

text \<open>An instance: after the start of the program the file is changed to
  \<^verbatim>\<open>SWEETENGINE=false\<close>, then removed, then emptied, with a reload after each change.\<close>

theorem C8_reload_never_disables_witness:
  "enabled sample_start \<noteq> 0
   \<and> enabled (config_reloads [Some ''SWEETENGINE=false\<newline>'', None, Some []] sample_start) \<noteq> 0"
proof -
  have h: "enabled sample_start \<noteq> 0"
    by (simp add: sample_start_running)
  show ?thesis
    using C8_reload_never_disables [where s = sample_start and content = None and len = 1
        and contents = "[Some ''SWEETENGINE=false\<newline>'', None, Some []]"] h
    by blast
qed

subsection \<open>A delivery that fails\<close>

text \<open>
  Claim C9. Let the dispatcher run a round with a queue that is not empty while nobody
  listens on the socket. The round returns, so the thread goes on to its next round. The
  count is one less, the queued notifications are the former ones without the oldest, and
  \<^verbatim>\<open>connect\<close> was tried once for it. The failure is written to the standard error stream;
  the log file is not written. The only other delivery in the round is that of the random
  notification, which the round makes in 5 cases of 100.
\<close>

theorem C9_failed_delivery_drops:
  assumes "queue_ok s" and "notification_count s \<noteq> 0" and "enabled s \<noteq> 0"
    and "\<not> data_mutex s" and "\<not> connect_ok s (connect_calls s)"
  shows "let s' = state_of (notification_dispatcher_tick s);
             ambient = (int (rand_values s (rand_calls s)) mod 100 < 5)
         in notification_dispatcher_tick s = Returns () s'
          \<and> notification_count s' = notification_count s - 1
          \<and> pending s' = tl (pending s)
          \<and> queue_ok s' \<and> enabled s' = enabled s \<and> \<not> data_mutex s'
          \<and> log_file s' = log_file s
          \<and> connect_calls s' = connect_calls s + (if ambient then 2 else 1)
          \<and> stderr_text s' = stderr_text s @ [connect_failure_text]
               @ (if ambient \<and> \<not> connect_ok s (Suc (connect_calls s))
                  then [connect_failure_text] else [])
          \<and> socket_out s' = socket_out s
               @ (if ambient \<and> connect_ok s (Suc (connect_calls s))
                  then [snprintf 512 (notification_json ''random''
                          (random_msgs ! nat (int (rand_values s (Suc (rand_calls s))) mod 10)) 2
                          (clock s (time_calls s)))]
                  else [])"
proof -
  let ?a = "after_dispatch s"
  note a = after_dispatch_failed [OF assms(1,2,5)]
  have t: "notification_dispatcher_tick s = Returns () (ambient_part ?a)"
    using assms by (simp add: dispatcher_tick_cases)
  have q: "queue_ok (ambient_part ?a)"
    using assms(1) by (simp add: after_dispatch_ok)
  have p: "pending (ambient_part ?a) = tl (pending s)"
  proof -
    have "pending (snd (dispatch_queued (s\<lparr>data_mutex := True\<rparr>))) = tl (pending (s\<lparr>data_mutex := True\<rparr>))"
      using assms by (intro dispatch_queued_pop) simp_all
    then show ?thesis by (simp add: after_dispatch_def)
  qed
  have basic: "notification_count (ambient_part ?a) = notification_count s - 1"
    "enabled (ambient_part ?a) = enabled s" "\<not> data_mutex (ambient_part ?a)"
    by (simp_all add: a)
  have r: "rand_values ?a = rand_values s" "rand_calls ?a = rand_calls s"
    "connect_ok ?a = connect_ok s" "connect_calls ?a = Suc (connect_calls s)"
    "clock ?a = clock s" "time_calls ?a = time_calls s" "log_file ?a = log_file s"
    "stderr_text ?a = stderr_text s @ [connect_failure_text]" "socket_out ?a = socket_out s"
    by (simp_all add: a)
  have world: "log_file (ambient_part ?a) = log_file s
    \<and> connect_calls (ambient_part ?a) = connect_calls s
         + (if int (rand_values s (rand_calls s)) mod 100 < 5 then 2 else 1)
    \<and> stderr_text (ambient_part ?a) = stderr_text s @ [connect_failure_text]
         @ (if int (rand_values s (rand_calls s)) mod 100 < 5 \<and> \<not> connect_ok s (Suc (connect_calls s))
            then [connect_failure_text] else [])
    \<and> socket_out (ambient_part ?a) = socket_out s
         @ (if int (rand_values s (rand_calls s)) mod 100 < 5 \<and> connect_ok s (Suc (connect_calls s))
            then [snprintf 512 (notification_json ''random''
                    (random_msgs ! nat (int (rand_values s (Suc (rand_calls s))) mod 10)) 2
                    (clock s (time_calls s)))]
            else [])"
  proof (cases "int (rand_values s (rand_calls s)) mod 100 < 5")
    case False
    then show ?thesis by (simp add: ambient_part_cases r)
  next
    case True
    show ?thesis
    proof (cases "connect_ok s (Suc (connect_calls s))")
      case ok: True
      then have "connect_ok (?a\<lparr>rand_calls := Suc (Suc (rand_calls ?a))\<rparr>)
          (connect_calls (?a\<lparr>rand_calls := Suc (Suc (rand_calls ?a))\<rparr>))"
        by (simp add: r)
      then show ?thesis
        using True ok by (simp add: ambient_part_cases send_notification_sent r)
    next
      case no: False
      then have "\<not> connect_ok (?a\<lparr>rand_calls := Suc (Suc (rand_calls ?a))\<rparr>)
          (connect_calls (?a\<lparr>rand_calls := Suc (Suc (rand_calls ?a))\<rparr>))"
        by (simp add: r)
      then show ?thesis
        using True no
        by (simp add: ambient_part_cases send_notification_failed r connect_failure_text_def)
    qed
  qed
  show ?thesis
    unfolding Let_def t state_of.simps using q p basic world by simp
qed

text \<open>An instance: one queued notification and no listener.\<close>

theorem C9_failed_delivery_drops_witness:
  "queue_ok sample_queued \<and> notification_count sample_queued \<noteq> 0 \<and> enabled sample_queued \<noteq> 0
   \<and> \<not> data_mutex sample_queued \<and> \<not> connect_ok sample_queued (connect_calls sample_queued)
   \<and> notification_count (state_of (notification_dispatcher_tick sample_queued))
        = notification_count sample_queued - 1
   \<and> pending (state_of (notification_dispatcher_tick sample_queued)) = tl (pending sample_queued)
   \<and> stderr_text (state_of (notification_dispatcher_tick sample_queued))
        = stderr_text sample_queued @ [connect_failure_text]"
proof -
  have r: "\<not> int (rand_values sample_queued (rand_calls sample_queued)) mod 100 < 5"
    by code_simp
  show ?thesis
    using C9_failed_delivery_drops [OF sample_queued_facts] sample_queued_facts r
    by (simp add: Let_def)
qed

text \<open>The failure does not reach the log file: it still holds the line of the start only,
  while the message is on the standard error stream.\<close>

theorem C9_failure_not_in_audit_log:
  "notification_count sample_queued = 1
   \<and> \<not> connect_ok sample_queued (connect_calls sample_queued)
   \<and> log_file sample_queued = ''[Thu Jan  1 00:00:00 1970] Engine started\<newline>''
   \<and> log_file (state_of (notification_dispatcher_tick sample_queued)) = log_file sample_queued
   \<and> stderr_text (state_of (notification_dispatcher_tick sample_queued))
        = stderr_text sample_queued @ [''SweetEngine: Failed to connect to NotifEngine\<newline>'']"
  by code_simp

subsection \<open>The Wayland achievement stays locked\<close>

text \<open>
  Claim C10. The evaluator compares the target of \<^verbatim>\<open>wayland_pro\<close> with its static variable
  \<^verbatim>\<open>wayland_events\<close>, which nothing ever writes; the Wayland listener counts in its own
  variable \<^verbatim>\<open>event_count\<close>. From a state with the catalog within its bounds and that
  variable at 0, as after every start of the program, and with every \<^verbatim>\<open>wayland_pro\<close> entry's
  target positive, no run of rounds of the threads changes a \<^verbatim>\<open>wayland_pro\<close> entry in any
  field, and the variable stays 0. In particular such an entry is never unlocked.
\<close>

theorem C10_wayland_pro_never_unlocked:
  assumes "engine_ok s0" and "wayland_events s0 = 0"
    and "\<forall>k < nat (achievement_count s0).
           id_field (achievements s0 ! k) = ''wayland_pro'' \<longrightarrow> 0 < target (achievements s0 ! k)"
    and "list_all engine_event es" and "s \<in> set (trace es s0)"
    and "i < nat (achievement_count s0)" and "id_field (achievements s0 ! i) = ''wayland_pro''"
  shows "achievements s ! i = achievements s0 ! i \<and> wayland_events s = 0
    \<and> engine_ok (snd (main_startup w)) \<and> wayland_events (snd (main_startup w)) = 0"
proof -
  have idle: "wayland_idle s0" using assms(2,3) by (simp add: wayland_idle_def)
  have f: "ach_frame (\<lambda>x. x = ''boot_master'') s0 s"
    using assms(1) idle assms(4,5) by (rule trace_idle)
  have "i < length (achievements s0)" using assms(1,6) unfolding engine_ok_def by linarith
  then have "unlock_step (\<lambda>x. x = ''boot_master'') (achievements s0 ! i) (achievements s ! i)"
    using f by (intro ach_frame_slot)
  then have "achievements s ! i = achievements s0 ! i"
    using assms(7) by (simp add: unlock_step_def)
  moreover have "wayland_events s = 0" using f assms(2) by (simp add: ach_frame_def)
  moreover have "engine_ok (snd (main_startup w))" "wayland_events (snd (main_startup w)) = 0"
    using main_startup_ok [of w] by simp_all
  ultimately show ?thesis by simp
qed

text \<open>An instance: 600 rounds of the monitor, one of the Wayland listener and one of the
  dispatcher after the start of the program, where the target is 500.\<close>

theorem C10_wayland_pro_never_unlocked_witness:
  "engine_ok sample_start \<and> wayland_events sample_start = 0
   \<and> id_field (achievements sample_start ! 1) = ''wayland_pro''
   \<and> target (achievements sample_start ! 1) = 500
   \<and> unlocked (achievements sample_start ! 1) = 0
   \<and> achievements (last (trace (replicate 600 Monitor_tick @ [Wayland_tick, Dispatcher_tick]) sample_start)) ! 1
       = achievements sample_start ! 1"
proof -
  let ?es = "replicate 600 Monitor_tick @ [Wayland_tick, Dispatcher_tick]"
  note a = sample_catalog
  have t: "\<forall>k < nat (achievement_count sample_start).
           id_field (achievements sample_start ! k) = ''wayland_pro'' \<longrightarrow> 0 < target (achievements sample_start ! k)"
  proof (intro allI impI)
    fix k assume "k < nat (achievement_count sample_start)"
      and w: "id_field (achievements sample_start ! k) = ''wayland_pro''"
    then have "k = 0 \<or> k = 1" by (auto simp: sample_start_engine)
    then show "0 < target (achievements sample_start ! k)" using a w by auto
  qed
  have e: "list_all engine_event ?es" by (simp add: list_all_iff)
  have m: "last (trace ?es sample_start) \<in> set (trace ?es sample_start)"
    by (rule last_in_set) (rule trace_nonempty)
  have i: "1 < nat (achievement_count sample_start)" by (simp add: sample_start_engine)
  show ?thesis
    using C10_wayland_pro_never_unlocked [OF sample_start_engine(1) a(1) t e m i a(2)] a
      sample_start_engine(1) by blast
qed

end
